theory Spec2Isabelle
  imports Complex_Main "HOL-Library.Stream" "HOL-Library.Sublist"
begin

section \<open>Data model (lib/types.ts)\<close>

text \<open>
  JavaScript numbers are modelled as exact reals: every statement below is about the
  arithmetic the code writes down, not about IEEE rounding. \<open>Math.floor\<close> and
  \<open>Math.ceil\<close> are \<open>floor\<close> and \<open>ceiling\<close>; \<open>Math.round\<close> rounds halves upwards.
\<close>

definition Math_round :: "real \<Rightarrow> real" where
  "Math_round v = of_int \<lfloor>v + 1 / 2\<rfloor>"

text \<open>
  \<open>metadata\<close> is an open key-value object in the source. Two shapes are ever built:
  the generator's \<open>{quality, source}\<close> and the aggregator's \<open>{count, min, max, avg}\<close>.
\<close>

datatype metadata =
    SensorMeta (quality: string) (source: string)
  | BucketMeta (bcount: nat) (bmin: real) (bmax: real) (bavg: real)

text \<open>The field \<open>value\<close> of the source is called \<open>val\<close> here.\<close>

record DataPoint =
  timestamp :: real
  val :: real
  category :: string
  metadata :: "metadata option"

text \<open>\<open>TimeRange\<close> has fields \<open>start\<close> and \<open>end\<close>.\<close>

record TimeRange =
  range_start :: real
  range_end :: real

record FilterOptions =
  categories :: "string list"
  minValue :: "real option"
  maxValue :: "real option"
  timeRange :: "TimeRange option"

text \<open>\<open>ChartBounds\<close> has fields \<open>x\<close>, \<open>y\<close>, \<open>width\<close>, \<open>height\<close>.\<close>

record ChartBounds =
  rect_x :: real
  rect_y :: real
  width :: real
  height :: real

record Viewport =
  xMin :: real
  xMax :: real
  yMin :: real
  yMax :: real

datatype AggregationPeriodType = P1min | P5min | P1hour

section \<open>Coordinate mapping and viewport (lib/canvasUtils.ts)\<close>

definition dataToCanvas :: "DataPoint \<Rightarrow> ChartBounds \<Rightarrow> Viewport \<Rightarrow> real \<times> real" where
  "dataToCanvas point bounds viewport =
     (let cx = rect_x bounds
            + ((timestamp point - xMin viewport) / (xMax viewport - xMin viewport)) * width bounds;
          cy = rect_y bounds + height bounds
            - ((val point - yMin viewport) / (yMax viewport - yMin viewport)) * height bounds
      in (cx, cy))"

text \<open>The result pair is \<open>(timestamp, value)\<close>.\<close>

definition canvasToData :: "real \<Rightarrow> real \<Rightarrow> ChartBounds \<Rightarrow> Viewport \<Rightarrow> real \<times> real" where
  "canvasToData canvasX canvasY bounds viewport =
     (let ts = xMin viewport
            + ((canvasX - rect_x bounds) / width bounds) * (xMax viewport - xMin viewport);
          v = yMax viewport
            - ((canvasY - rect_y bounds) / height bounds) * (yMax viewport - yMin viewport)
      in (ts, v))"

text \<open>
  \<open>Math.min(...xs)\<close> and \<open>Math.max(...xs)\<close> are only ever applied to non-empty arrays
  (after the \<open>data.length === 0\<close> return, and on buckets that hold at least one point).
\<close>

definition Math_min :: "real list \<Rightarrow> real" where
  "Math_min xs = Min (set xs)"

definition Math_max :: "real list \<Rightarrow> real" where
  "Math_max xs = Max (set xs)"

text \<open>
  \<open>calculateViewport(data, padding = 0.1)\<close>. The two readings of \<open>Date.now()\<close> in the
  empty branch are the parameters \<open>now1\<close> and \<open>now2\<close>; an absent \<open>padding\<close> is \<open>None\<close>.
\<close>

definition calculateViewport ::
  "real \<Rightarrow> real \<Rightarrow> DataPoint list \<Rightarrow> real option \<Rightarrow> Viewport" where
  "calculateViewport now1 now2 data padding_arg =
     (let padding = (case padding_arg of None \<Rightarrow> 1 / 10 | Some p \<Rightarrow> p) in
      if length data = 0 then
        \<lparr>xMin = now1 - 3600000, xMax = now2, yMin = 0, yMax = 100\<rparr>
      else
        let timestamps = map timestamp data;
            vals = map val data;
            xmin = Math_min timestamps;
            xmax = Math_max timestamps;
            ymin = Math_min vals;
            ymax = Math_max vals;
            xRange = xmax - xmin;
            yRange = ymax - ymin
        in \<lparr>xMin = xmin - xRange * padding,
            xMax = xmax + xRange * padding,
            yMin = max 0 (ymin - yRange * padding),
            yMax = ymax + yRange * padding\<rparr>)"

section \<open>Sample source, aggregation and filtering (lib/dataGenerator.ts)\<close>

record ValueRange =
  range_min :: real
  range_max :: real

text \<open>The generator's field \<open>categories\<close> is called \<open>gcategories\<close> here.\<close>

record DataGenerator =
  baseTime :: real
  gcategories :: "string list"
  valueRange :: ValueRange
  trend :: real

text \<open>The constructor; \<open>now\<close> is the reading of \<open>Date.now()\<close>.\<close>

definition DataGenerator_new :: "real \<Rightarrow> DataGenerator" where
  "DataGenerator_new now =
     \<lparr>baseTime = now,
      gcategories = [''temperature'', ''pressure'', ''humidity'', ''voltage'', ''current''],
      valueRange = \<lparr>range_min = 0, range_max = 100\<rparr>,
      trend = 0\<rparr>"

text \<open>Decimal printing of an integer, for \<open>'sensor-' + Math.floor(...)\<close>.\<close>

fun decimal :: "nat \<Rightarrow> string" where
  "decimal n =
     (if n < 10 then [char_of (48 + n)]
      else decimal (n div 10) @ [char_of (48 + n mod 10)])"

declare decimal.simps [simp del]

definition Number_toString :: "int \<Rightarrow> string" where
  "Number_toString i = (if i < 0 then CHR ''-'' # decimal (nat (- i)) else decimal (nat i))"

text \<open>
  Reading \<open>categories[i]\<close>: an index outside the array gives JavaScript's \<open>undefined\<close>,
  written here as the text \<open>undefined\<close>. \<open>Math.random()\<close> lies in \<open>[0, 1)\<close>, so with a
  non-empty category list the index is in range.
\<close>

definition category_at :: "string list \<Rightarrow> int \<Rightarrow> string" where
  "category_at cs i = (if 0 \<le> i \<and> i < int (length cs) then cs ! nat i else ''undefined'')"

text \<open>
  \<open>generatePoint(category?, offset = 0)\<close>. The successive results of \<open>Math.random()\<close>
  are read off a stream, which is returned advanced; the generator is returned with its
  new \<open>trend\<close>. A category that is absent or the empty string is falsy, and only then
  is a random number drawn for it.
\<close>

definition generatePoint ::
  "DataGenerator \<Rightarrow> real stream \<Rightarrow> string option \<Rightarrow> real option
     \<Rightarrow> DataPoint \<times> DataGenerator \<times> real stream" where
  "generatePoint g rs0 category_arg offset_arg =
     (let offset = (case offset_arg of None \<Rightarrow> 0 | Some v \<Rightarrow> v);
          (categoryName, rs1) =
             (case category_arg of
                Some c \<Rightarrow>
                  if c \<noteq> [] then (c, rs0)
                  else (category_at (gcategories g)
                          \<lfloor>shd rs0 * real (length (gcategories g))\<rfloor>, stl rs0)
              | None \<Rightarrow>
                  (category_at (gcategories g)
                     \<lfloor>shd rs0 * real (length (gcategories g))\<rfloor>, stl rs0));
          ts = baseTime g + offset;
          trend1 = trend g + (shd rs1 - 1 / 2) * (1 / 10);
          rs2 = stl rs1;
          trend2 = max (- 2) (min 2 trend1);
          baseValue = 50 + trend2 * 10;
          noise = (shd rs2 - 1 / 2) * 10;
          rs3 = stl rs2;
          seasonal = sin ((offset / 1000) * (1 / 100)) * 5;
          v = max (range_min (valueRange g))
                (min (range_max (valueRange g)) (baseValue + noise + seasonal));
          q = (if shd rs3 > 1 / 10 then ''good'' else ''warning'');
          rs4 = stl rs3;
          src = ''sensor-'' @ Number_toString \<lfloor>shd rs4 * 10\<rfloor>;
          rs5 = stl rs4
      in (\<lparr>timestamp = ts,
            val = Math_round (v * 100) / 100,
            category = categoryName,
            metadata = Some (SensorMeta q src)\<rparr>,
          g\<lparr>trend := trend2\<rparr>,
          rs5))"

text \<open>
  \<open>generateBatch(count, startTime?)\<close>: the loop \<open>for (i = 0; i < count; i++)\<close> pushes one
  point per index. \<open>startTime || this.baseTime\<close> takes the base time when the argument is
  absent or zero.
\<close>

definition generateBatch_step ::
  "real \<Rightarrow> nat \<Rightarrow> DataPoint list \<times> DataGenerator \<times> real stream
     \<Rightarrow> DataPoint list \<times> DataGenerator \<times> real stream" where
  "generateBatch_step start i st =
     (case st of (points, g, rs) \<Rightarrow>
        (case generatePoint g rs None (Some (start + real i * 100)) of
           (p, g', rs') \<Rightarrow> (points @ [p], g', rs')))"

definition generateBatch ::
  "DataGenerator \<Rightarrow> real stream \<Rightarrow> int \<Rightarrow> real option
     \<Rightarrow> DataPoint list \<times> DataGenerator \<times> real stream" where
  "generateBatch g rs count startTime =
     (let start = (case startTime of
                     None \<Rightarrow> baseTime g
                   | Some s \<Rightarrow> if s \<noteq> 0 then s else baseTime g)
      in fold (generateBatch_step start) [0..<nat count] ([], g, rs))"

definition generateNext ::
  "DataGenerator \<Rightarrow> real stream \<Rightarrow> real \<Rightarrow> DataPoint \<times> DataGenerator \<times> real stream" where
  "generateNext g rs lastTimestamp = generatePoint g rs None (Some (lastTimestamp + 100))"

definition setValueRange :: "DataGenerator \<Rightarrow> real \<Rightarrow> real \<Rightarrow> DataGenerator" where
  "setValueRange g lo hi = g\<lparr>valueRange := \<lparr>range_min = lo, range_max = hi\<rparr>\<rparr>"

definition setCategories :: "DataGenerator \<Rightarrow> string list \<Rightarrow> DataGenerator" where
  "setCategories g cs = g\<lparr>gcategories := cs\<rparr>"

definition reset :: "DataGenerator \<Rightarrow> real \<Rightarrow> DataGenerator" where
  "reset g now = g\<lparr>baseTime := now, trend := 0\<rparr>"


subsection \<open>aggregateData\<close>

text \<open>
  The \<open>Map<number, DataPoint[]>\<close> of the source iterates in insertion order, so it is an
  association list: \<open>Map_set\<close> on a key already present replaces the value in place, on a
  new key it appends an entry.
\<close>

definition Map_has :: "('k \<times> 'v) list \<Rightarrow> 'k \<Rightarrow> bool" where
  "Map_has m k = (k \<in> set (map fst m))"

definition Map_get :: "('k \<times> 'v) list \<Rightarrow> 'k \<Rightarrow> 'v option" where
  "Map_get m k = map_of m k"

fun Map_set :: "('k \<times> 'v) list \<Rightarrow> 'k \<Rightarrow> 'v \<Rightarrow> ('k \<times> 'v) list" where
  "Map_set [] k v = [(k, v)]"
| "Map_set ((k', v') # m) k v = (if k' = k then (k, v) # m else (k', v') # Map_set m k v)"

definition bucketTimeOf :: "real \<Rightarrow> DataPoint \<Rightarrow> real" where
  "bucketTimeOf periodMs point = of_int \<lfloor>timestamp point / periodMs\<rfloor> * periodMs"

text \<open>The body of \<open>data.forEach\<close>: create the bucket when it is missing, then push.\<close>

definition group_point ::
  "real \<Rightarrow> DataPoint \<Rightarrow> (real \<times> DataPoint list) list \<Rightarrow> (real \<times> DataPoint list) list" where
  "group_point periodMs point buckets =
     (let bucketTime = bucketTimeOf periodMs point;
          buckets1 = (if \<not> Map_has buckets bucketTime then Map_set buckets bucketTime []
                      else buckets)
      in case Map_get buckets1 bucketTime of
           Some points \<Rightarrow> Map_set buckets1 bucketTime (points @ [point])
         | None \<Rightarrow> buckets1)"

text \<open>The body of \<open>buckets.forEach\<close>: one summary point per bucket.\<close>

definition aggregate_bucket :: "real \<times> DataPoint list \<Rightarrow> DataPoint" where
  "aggregate_bucket b =
     (case b of (bucketTime, points) \<Rightarrow>
        let vals = map val points;
            avgValue = sum_list vals / real (length vals);
            vmin = Math_min vals;
            vmax = Math_max vals
        in \<lparr>timestamp = bucketTime,
            val = Math_round (avgValue * 100) / 100,
            category = category (points ! 0),
            metadata = Some (BucketMeta (length points) vmin vmax avgValue)\<rparr>)"

text \<open>
  \<open>aggregated.sort((a, b) => a.timestamp - b.timestamp)\<close> is a stable ascending sort on
  the timestamp.
\<close>

definition aggregateData :: "DataPoint list \<Rightarrow> real \<Rightarrow> DataPoint list" where
  "aggregateData data periodMs =
     (if length data = 0 then []
      else
        let buckets = fold (group_point periodMs) data [];
            aggregated = map aggregate_bucket buckets
        in sort_key timestamp aggregated)"

text \<open>The number of samples a summary point stands for (\<open>metadata.count\<close>).\<close>

definition sampleCount :: "DataPoint \<Rightarrow> nat" where
  "sampleCount b = (case metadata b of Some (BucketMeta c _ _ _) \<Rightarrow> c | _ \<Rightarrow> 0)"

subsection \<open>filterData\<close>

text \<open>
  The \<open>filters\<close> object of \<open>filterData\<close> has four optional fields, passed here one by one.
  An array is truthy even when empty, so \<open>Some []\<close> is a category constraint.
\<close>

definition filterData_keep ::
  "string list option \<Rightarrow> real option \<Rightarrow> real option \<Rightarrow> TimeRange option \<Rightarrow> DataPoint \<Rightarrow> bool"
  where
  "filterData_keep cats minV maxV tr point =
     (if (case cats of Some cs \<Rightarrow> category point \<notin> set cs | None \<Rightarrow> False) then False
      else if (case minV of Some lo \<Rightarrow> val point < lo | None \<Rightarrow> False) then False
      else if (case maxV of Some hi \<Rightarrow> val point > hi | None \<Rightarrow> False) then False
      else if (case tr of
                 Some r \<Rightarrow> timestamp point < range_start r \<or> timestamp point > range_end r
               | None \<Rightarrow> False) then False
      else True)"

definition filterData ::
  "DataPoint list \<Rightarrow> string list option \<Rightarrow> real option \<Rightarrow> real option \<Rightarrow> TimeRange option
     \<Rightarrow> DataPoint list" where
  "filterData data cats minV maxV tr = filter (filterData_keep cats minV maxV tr) data"

section \<open>The data provider (components/providers/DataProvider.tsx)\<close>

definition aggregationPeriods :: "AggregationPeriodType \<Rightarrow> real" where
  "aggregationPeriods t = (case t of P1min \<Rightarrow> 60000 | P5min \<Rightarrow> 300000 | P1hour \<Rightarrow> 3600000)"

text \<open>The first half of the \<open>filteredData\<close> memo: the filters.\<close>

definition applyFilters :: "DataPoint list \<Rightarrow> FilterOptions \<Rightarrow> DataPoint list" where
  "applyFilters data filters =
     (if length (categories filters) > 0 then
        filterData data (Some (categories filters)) (minValue filters) (maxValue filters)
          (timeRange filters)
      else if minValue filters \<noteq> None \<or> maxValue filters \<noteq> None \<or> timeRange filters \<noteq> None then
        filterData data None (minValue filters) (maxValue filters) (timeRange filters)
      else data)"

text \<open>The whole memo: the filters, then the aggregation unless the period is \<open>1min\<close>.\<close>

definition filteredData ::
  "DataPoint list \<Rightarrow> FilterOptions \<Rightarrow> AggregationPeriodType \<Rightarrow> DataPoint list" where
  "filteredData data filters aggregationPeriod =
     (let result = applyFilters data filters
      in if aggregationPeriod \<noteq> P1min \<and> length result > 0
         then aggregateData result (aggregationPeriods aggregationPeriod)
         else result)"

section \<open>Virtualization window (hooks/useVirtualization.ts)\<close>

record VirtualizationOptions =
  itemHeight :: real
  containerHeight :: real
  overscan_opt :: "int option"

definition overscan :: "VirtualizationOptions \<Rightarrow> int" where
  "overscan options = (case overscan_opt options of None \<Rightarrow> 5 | Some v \<Rightarrow> v)"

text \<open>The pair is \<open>(start, end)\<close>; \<open>scrollTop\<close> is the hook's state.\<close>

definition visibleRange :: "'a list \<Rightarrow> VirtualizationOptions \<Rightarrow> real \<Rightarrow> int \<times> int" where
  "visibleRange items options scrollTop =
     (let start = \<lfloor>scrollTop / itemHeight options\<rfloor>;
          endv = min (int (length items) - 1)
                   \<lceil>(scrollTop + containerHeight options) / itemHeight options\<rceil>
      in (max 0 (start - overscan options),
          min (int (length items) - 1) (endv + overscan options)))"

definition totalHeight :: "'a list \<Rightarrow> VirtualizationOptions \<Rightarrow> real" where
  "totalHeight items options = real (length items) * itemHeight options"

definition offsetY :: "'a list \<Rightarrow> VirtualizationOptions \<Rightarrow> real \<Rightarrow> real" where
  "offsetY items options scrollTop =
     of_int (fst (visibleRange items options scrollTop)) * itemHeight options"


text \<open>
  \<open>Array.prototype.slice(start, end?)\<close>: a negative index counts from the end of the
  array, both indices are clamped to the array, and an absent \<open>end\<close> is the length.
\<close>

definition slice_index :: "int \<Rightarrow> int \<Rightarrow> int" where
  "slice_index len i = (if i < 0 then max (len + i) 0 else min i len)"

definition Array_slice :: "'a list \<Rightarrow> int \<Rightarrow> int option \<Rightarrow> 'a list" where
  "Array_slice xs start end_arg =
     (let len = int (length xs);
          k = slice_index len start;
          fin = (case end_arg of None \<Rightarrow> len | Some e \<Rightarrow> slice_index len e)
      in take (nat (fin - k)) (drop (nat k) xs))"

text \<open>The visible items, each paired with its index in \<open>items\<close>.\<close>

definition visibleItems :: "'a list \<Rightarrow> VirtualizationOptions \<Rightarrow> real \<Rightarrow> ('a \<times> int) list" where
  "visibleItems items options scrollTop =
     (case visibleRange items options scrollTop of (start, endv) \<Rightarrow>
        (let shown = Array_slice items start (Some (endv + 1))
         in zip shown (map (\<lambda>index. start + int index) [0..<length shown])))"

section \<open>Bounded stream buffer (hooks/useDataStream.ts)\<close>

record UseDataStreamOptions =
  updateInterval_opt :: "real option"
  maxDataPoints_opt :: "int option"
  initialCount_opt :: "int option"

text \<open>The destructuring of \<open>options\<close> with its defaults.\<close>

definition updateInterval :: "UseDataStreamOptions \<Rightarrow> real" where
  "updateInterval options = (case updateInterval_opt options of None \<Rightarrow> 100 | Some v \<Rightarrow> v)"

definition maxDataPoints :: "UseDataStreamOptions \<Rightarrow> int" where
  "maxDataPoints options = (case maxDataPoints_opt options of None \<Rightarrow> 10000 | Some v \<Rightarrow> v)"

definition initialCount :: "UseDataStreamOptions \<Rightarrow> int" where
  "initialCount options = (case initialCount_opt options of None \<Rightarrow> 1000 | Some v \<Rightarrow> v)"

text \<open>
  The hook's state: the \<open>data\<close> and \<open>isStreaming\<close> states and the generator, interval and
  last-timestamp refs. \<open>intervalRef\<close> says whether a timer handle is held.
\<close>

record DataStream =
  stream_data :: "DataPoint list"
  isStreaming :: bool
  generatorRef :: DataGenerator
  intervalRef :: bool
  lastTimestampRef :: real

text \<open>
  A hook has no failure path of its own; the result type makes that explicit, so that
  "construction is rejected" can be stated at all.
\<close>

datatype error = ConfigurationError

text \<open>
  \<open>useDataStream(options)\<close> up to the end of the initialisation effect: a fresh generator,
  one batch of \<open>initialCount\<close> points, the last timestamp remembered. No option is checked.
\<close>

definition useDataStream ::
  "UseDataStreamOptions \<Rightarrow> real \<Rightarrow> real stream \<Rightarrow> error + DataStream \<times> real stream" where
  "useDataStream options now rs =
     (case generateBatch (DataGenerator_new now) rs (initialCount options) None of
        (initialData, g, rs') \<Rightarrow>
          Inr (\<lparr>stream_data = initialData,
                isStreaming = False,
                generatorRef = g,
                intervalRef = False,
                lastTimestampRef =
                  (if length initialData > 0 then timestamp (initialData ! (length initialData - 1))
                   else 0)\<rparr>,
               rs'))"

text \<open>The state update of one interval tick, given the freshly generated point.\<close>

definition appendPoint :: "int \<Rightarrow> DataPoint list \<Rightarrow> DataPoint \<Rightarrow> DataPoint list" where
  "appendPoint maxPoints prevData newPoint =
     (let updated = prevData @ [newPoint]
      in if int (length updated) > maxPoints then Array_slice updated (- maxPoints) None
         else updated)"

text \<open>The end of the \<open>addDataPoints\<close> update, given the freshly generated points.\<close>

definition appendBatch :: "int \<Rightarrow> DataPoint list \<Rightarrow> DataPoint list \<Rightarrow> DataPoint list" where
  "appendBatch maxPoints prevData newPoints =
     (let updated = prevData @ newPoints
      in if int (length updated) > maxPoints then Array_slice updated (- maxPoints) None
         else updated)"

text \<open>
  One tick of the interval started by \<open>startStreaming\<close>; \<open>lastTimestampRef.current || Date.now()\<close>
  takes the clock when the ref is zero.
\<close>

definition streamTick ::
  "UseDataStreamOptions \<Rightarrow> real \<Rightarrow> DataStream \<times> real stream \<Rightarrow> DataStream \<times> real stream" where
  "streamTick options now st =
     (case st of (s, rs) \<Rightarrow>
        (case generateNext (generatorRef s) rs
                (if lastTimestampRef s \<noteq> 0 then lastTimestampRef s else now) of
           (newPoint, g, rs') \<Rightarrow>
             (s\<lparr>stream_data := appendPoint (maxDataPoints options) (stream_data s) newPoint,
                generatorRef := g,
                lastTimestampRef := timestamp newPoint\<rparr>,
              rs')))"

text \<open>\<open>startStreaming\<close> (its timer callback is \<open>streamTick\<close>) and \<open>stopStreaming\<close>.\<close>

definition startStreaming :: "DataStream \<Rightarrow> DataStream" where
  "startStreaming s = (if isStreaming s then s else s\<lparr>isStreaming := True, intervalRef := True\<rparr>)"

definition stopStreaming :: "DataStream \<Rightarrow> DataStream" where
  "stopStreaming s = s\<lparr>intervalRef := False, isStreaming := False\<rparr>"

text \<open>
  \<open>resetData\<close>: stop, reset the generator, load a fresh batch of \<open>initialCount\<close> points.
  The last timestamp is only replaced when the batch is not empty.
\<close>

definition resetData ::
  "UseDataStreamOptions \<Rightarrow> real \<Rightarrow> DataStream \<times> real stream \<Rightarrow> DataStream \<times> real stream" where
  "resetData options now st =
     (case st of (s, rs) \<Rightarrow>
        (let s1 = stopStreaming s
         in case generateBatch (reset (generatorRef s1) now) rs (initialCount options) None of
              (newData, g, rs') \<Rightarrow>
                (s1\<lparr>stream_data := newData,
                    generatorRef := g,
                    lastTimestampRef :=
                      (if length newData > 0 then timestamp (newData ! (length newData - 1))
                       else lastTimestampRef s1)\<rparr>,
                 rs')))"

text \<open>The loop of \<open>addDataPoints\<close>: each point is generated after the previous one's timestamp.\<close>

definition addDataPoints_step ::
  "nat \<Rightarrow> DataPoint list \<times> real \<times> DataGenerator \<times> real stream
     \<Rightarrow> DataPoint list \<times> real \<times> DataGenerator \<times> real stream" where
  "addDataPoints_step i st =
     (case st of (newPoints, lastTs, g, rs) \<Rightarrow>
        (case generateNext g rs lastTs of
           (point, g', rs') \<Rightarrow> (newPoints @ [point], timestamp point, g', rs')))"

definition addDataPoints ::
  "UseDataStreamOptions \<Rightarrow> real \<Rightarrow> int \<Rightarrow> DataStream \<times> real stream \<Rightarrow> DataStream \<times> real stream"
  where
  "addDataPoints options now count st =
     (case st of (s, rs) \<Rightarrow>
        (let prevData = stream_data s;
             lastTs0 = (if length prevData > 0 then timestamp (prevData ! (length prevData - 1))
                        else now)
         in case fold addDataPoints_step [0..<nat count] ([], lastTs0, generatorRef s, rs) of
              (newPoints, lastTs, g, rs') \<Rightarrow>
                (s\<lparr>stream_data := appendBatch (maxDataPoints options) prevData newPoints,
                   generatorRef := g\<rparr>,
                 rs')))"

section \<open>Point reduction while drawing (hooks/useChartRenderer.ts, charts/ScatterPlot.tsx)\<close>

text \<open>
  The drawing loop \<open>for (let i = 0; i < data.length; i += step)\<close>. It returns the points
  \<open>data[i]\<close> it visits, in the order it draws them; a loop that never ends has no result.
\<close>

partial_function (option) drawLoop :: "'a list \<Rightarrow> nat \<Rightarrow> nat \<Rightarrow> 'a list \<Rightarrow> 'a list option" where
  "drawLoop data step i drawn =
     (if i < length data then drawLoop data step (i + step) (drawn @ [data ! i])
      else Some drawn)"

definition useLowDetail :: "'a list \<Rightarrow> bool" where
  "useLowDetail data = (length data > 50000)"

text \<open>The points the line renderer's \<open>render\<close> draws.\<close>

definition renderStep :: "'a list \<Rightarrow> nat" where
  "renderStep data = (if useLowDetail data then max 1 (length data div 2000) else 1)"

definition render :: "'a list \<Rightarrow> 'a list option" where
  "render data = (if length data > 0 then drawLoop data (renderStep data) 0 [] else Some [])"

text \<open>The points the scatter plot draws.\<close>

definition scatterStep :: "'a list \<Rightarrow> nat" where
  "scatterStep data = (if length data > 10000 then max 1 (length data div 10000) else 1)"

definition ScatterPlot :: "'a list \<Rightarrow> 'a list option" where
  "ScatterPlot data =
     (if length data > 0 then drawLoop data (scatterStep data) 0 [] else Some [])"

section \<open>The wording of the specification, for comparison\<close>

text \<open>
  Decimation as the specification words it: stride \<open>max(1, floor(length / d))\<close>, and the
  elements at the indices \<open>0, s, 2s, ...\<close> below the length.
\<close>

definition spec_stride :: "nat \<Rightarrow> 'a list \<Rightarrow> nat" where
  "spec_stride d xs = max 1 (length xs div d)"

definition every_nth :: "nat \<Rightarrow> 'a list \<Rightarrow> 'a list" where
  "every_nth s xs = map (\<lambda>j. xs ! (j * s)) [0..<(length xs + s - 1) div s]"

definition spec_decimate :: "'a list \<Rightarrow> nat \<Rightarrow> 'a list" where
  "spec_decimate xs d = every_nth (spec_stride d xs) xs"

text \<open>The filter as the specification words it, for a filter with no category constraint.\<close>

definition in_bounds :: "FilterOptions \<Rightarrow> DataPoint \<Rightarrow> bool" where
  "in_bounds filters p =
     ((case minValue filters of None \<Rightarrow> True | Some lo \<Rightarrow> lo \<le> val p)
      \<and> (case maxValue filters of None \<Rightarrow> True | Some hi \<Rightarrow> val p \<le> hi)
      \<and> (case timeRange filters of
           None \<Rightarrow> True
         | Some r \<Rightarrow> range_start r \<le> timestamp p \<and> timestamp p \<le> range_end r))"

text \<open>
  The samples a run of ticks generates, one tick per clock reading, told without the
  buffer: each sample is generated after the previous one's timestamp.
\<close>

fun tick_points :: "real list \<Rightarrow> real \<Rightarrow> DataGenerator \<Rightarrow> real stream \<Rightarrow> DataPoint list" where
  "tick_points [] lastTs g rs = []"
| "tick_points (now # nows) lastTs g rs =
     (case generateNext g rs (if lastTs \<noteq> 0 then lastTs else now) of
        (p, g', rs') \<Rightarrow> p # tick_points nows (timestamp p) g' rs')"

text \<open>The \<open>k\<close> samples one call of \<open>addDataPoints\<close> generates, told the same way.\<close>

fun next_points :: "nat \<Rightarrow> real \<Rightarrow> DataGenerator \<Rightarrow> real stream \<Rightarrow> DataPoint list" where
  "next_points 0 lastTs g rs = []"
| "next_points (Suc k) lastTs g rs =
     (case generateNext g rs lastTs of
        (p, g', rs') \<Rightarrow> p # next_points k (timestamp p) g' rs')"

text \<open>The last \<open>n\<close> elements of a list.\<close>

definition last_n :: "nat \<Rightarrow> 'a list \<Rightarrow> 'a list" where
  "last_n n xs = drop (length xs - n) xs"

text \<open>The members of the bucket that starts at \<open>k\<close>, in input order.\<close>

definition members :: "real \<Rightarrow> DataPoint list \<Rightarrow> real \<Rightarrow> DataPoint list" where
  "members periodMs data k = filter (\<lambda>p. bucketTimeOf periodMs p = k) data"


text \<open>A value with at most two decimal places: a hundred times it is a whole number.\<close>

definition two_decimals :: "real \<Rightarrow> bool" where
  "two_decimals v = (of_int \<lfloor>v * 100\<rfloor> = v * 100)"

text \<open>What a sample of the default value range looks like.\<close>

definition default_sample :: "DataPoint \<Rightarrow> bool" where
  "default_sample p = (0 \<le> val p \<and> val p \<le> 100 \<and> two_decimals (val p))"

section \<open>Coordinate mapper: the round trip\<close>

text \<open>
  C4. For every sample, every display rectangle of positive width and height and every
  viewport with \<open>xMax > xMin\<close> and \<open>yMax > yMin\<close>, mapping the sample to the canvas with
  \<open>dataToCanvas\<close> and back with \<open>canvasToData\<close> gives its timestamp and its value again
  (in exact arithmetic).
\<close>

theorem dataToCanvas_roundtrip:
  assumes "0 < width bounds" "0 < height bounds"
      and "xMin viewport < xMax viewport" "yMin viewport < yMax viewport"
  shows "(case dataToCanvas point bounds viewport of
            (cx, cy) \<Rightarrow> canvasToData cx cy bounds viewport)
           = (timestamp point, val point)"
proof -
  define a where "a = xMax viewport - xMin viewport"
  define b where "b = yMax viewport - yMin viewport"
  define w where "w = width bounds"
  define h where "h = height bounds"
  have nz: "a \<noteq> 0" "b \<noteq> 0" "w \<noteq> 0" "h \<noteq> 0"
    using assms by (simp_all add: a_def b_def w_def h_def)
  have X: "xMin viewport
             + ((rect_x bounds + ((timestamp point - xMin viewport) / a) * w - rect_x bounds) / w) * a
           = timestamp point"
    using nz by simp
  have "(rect_y bounds + h - ((val point - yMin viewport) / b) * h - rect_y bounds) / h
        = 1 - (val point - yMin viewport) / b"
    using nz by (simp add: field_simps)
  then have Y: "yMax viewport
             - ((rect_y bounds + h - ((val point - yMin viewport) / b) * h - rect_y bounds) / h) * b
           = val point"
    using nz by (simp add: field_simps b_def)
  show ?thesis
    by (simp only: X [unfolded a_def w_def] Y [unfolded b_def h_def] dataToCanvas_def
          canvasToData_def Let_def prod.case)
qed

text \<open>The round trip at a sample drawn on the line chart's 720 by 340 plot area.\<close>

theorem dataToCanvas_roundtrip_witness:
  "0 < width \<lparr>rect_x = 60, rect_y = 20, width = 720, height = 340\<rparr>
   \<and> 0 < height \<lparr>rect_x = 60, rect_y = 20, width = 720, height = 340\<rparr>
   \<and> xMin \<lparr>xMin = 0, xMax = 1000, yMin = 0, yMax = 100\<rparr>
       < xMax \<lparr>xMin = 0, xMax = 1000, yMin = 0, yMax = 100\<rparr>
   \<and> yMin \<lparr>xMin = 0, xMax = 1000, yMin = 0, yMax = 100\<rparr>
       < yMax \<lparr>xMin = 0, xMax = 1000, yMin = 0, yMax = 100\<rparr>
   \<and> dataToCanvas \<lparr>timestamp = 250, val = 40, category = ''temperature'', metadata = None\<rparr>
        \<lparr>rect_x = 60, rect_y = 20, width = 720, height = 340\<rparr>
        \<lparr>xMin = 0, xMax = 1000, yMin = 0, yMax = 100\<rparr> = (240, 224)
   \<and> canvasToData 240 224 \<lparr>rect_x = 60, rect_y = 20, width = 720, height = 340\<rparr>
        \<lparr>xMin = 0, xMax = 1000, yMin = 0, yMax = 100\<rparr> = (250, 40)"
proof -
  have d: "dataToCanvas \<lparr>timestamp = 250, val = 40, category = ''temperature'', metadata = None\<rparr>
        \<lparr>rect_x = 60, rect_y = 20, width = 720, height = 340\<rparr>
        \<lparr>xMin = 0, xMax = 1000, yMin = 0, yMax = 100\<rparr> = (240, 224)"
    by (simp add: dataToCanvas_def)
  show ?thesis
    using dataToCanvas_roundtrip
      [of "\<lparr>rect_x = 60, rect_y = 20, width = 720, height = 340\<rparr>"
          "\<lparr>xMin = 0, xMax = 1000, yMin = 0, yMax = 100\<rparr>"
          "\<lparr>timestamp = 250, val = 40, category = ''temperature'', metadata = None\<rparr>"]
    by (simp add: d)
qed

section \<open>Virtualization window\<close>

text \<open>
  C5, as stated, fails for a negative overscan: the code clamps the end index to
  \<open>length - 1\<close> before it adds the overscan and again after. For 60 items of height 40,
  a container of height 400, scroll offset 2000 and overscan -3 the window is 53 to 56,
  where the formula of the claim gives 53 to 57.
\<close>

theorem visibleRange_negative_overscan:
  "visibleRange (replicate 60 ())
       \<lparr>itemHeight = 40, containerHeight = 400, overscan_opt = Some (- 3)\<rparr> 2000
     = (53, 56)
   \<and> (max 0 (\<lfloor>(2000::real) / 40\<rfloor> - (- 3)),
       min (int (length (replicate 60 ())) - 1) (\<lceil>((2000::real) + 400) / 40\<rceil> + (- 3)))
     = (53, 57)"
  by (simp add: visibleRange_def overscan_def)

text \<open>
  C5, amended. For a positive item height and an overscan \<open>ov\<close> that is not negative
  (the one the caller gives, or 5 when none is given), the window is
  \<open>start = max(0, floor(scrollTop / itemHeight) - ov)\<close>,
  \<open>end = min(length - 1, ceil((scrollTop + containerHeight) / itemHeight) + ov)\<close>,
  \<open>totalHeight = length * itemHeight\<close> and \<open>offsetY = start * itemHeight\<close>. For 10000
  items of height 40 in a container of height 400, overscan 5 and scroll offset 2000 this
  is start 45, end 65, total height 400000 and offset 1800.
\<close>

theorem visibleRange_window:
  "(0 < itemHeight options \<and> 0 \<le> ov
      \<and> (overscan_opt options = Some ov \<or> overscan_opt options = None \<and> ov = 5) \<longrightarrow>
      visibleRange items options scrollTop
        = (max 0 (\<lfloor>scrollTop / itemHeight options\<rfloor> - ov),
           min (int (length items) - 1)
             (\<lceil>(scrollTop + containerHeight options) / itemHeight options\<rceil> + ov))
      \<and> totalHeight items options = real (length items) * itemHeight options
      \<and> offsetY items options scrollTop
          = of_int (max 0 (\<lfloor>scrollTop / itemHeight options\<rfloor> - ov)) * itemHeight options)
   \<and> (length rows = 10000 \<longrightarrow>
      visibleRange rows \<lparr>itemHeight = 40, containerHeight = 400, overscan_opt = Some 5\<rparr> 2000
        = (45, 65)
      \<and> totalHeight rows \<lparr>itemHeight = 40, containerHeight = 400, overscan_opt = Some 5\<rparr>
        = 400000
      \<and> offsetY rows \<lparr>itemHeight = 40, containerHeight = 400, overscan_opt = Some 5\<rparr> 2000
        = 1800)"
  by (auto simp: visibleRange_def totalHeight_def offsetY_def overscan_def Let_def)

theorem visibleRange_window_witness:
  "0 < itemHeight \<lparr>itemHeight = 40, containerHeight = 400, overscan_opt = Some 2\<rparr>
   \<and> (0::int) \<le> 2
   \<and> overscan_opt \<lparr>itemHeight = 40, containerHeight = 400, overscan_opt = Some 2\<rparr> = Some 2
   \<and> length (replicate 10000 ()) = 10000
   \<and> visibleRange (replicate 10000 ())
        \<lparr>itemHeight = 40, containerHeight = 400, overscan_opt = Some 2\<rparr> 399900 = (9995, 9999)
   \<and> visibleRange (replicate 10000 ())
        \<lparr>itemHeight = 40, containerHeight = 400, overscan_opt = None\<rparr> 399900 = (9992, 9999)
   \<and> visibleRange (replicate 10000 ())
        \<lparr>itemHeight = 40, containerHeight = 400, overscan_opt = Some 5\<rparr> 2000 = (45, 65)"
  using visibleRange_window
      [of "\<lparr>itemHeight = 40, containerHeight = 400, overscan_opt = Some 2\<rparr>" 2
          "replicate 10000 ()" 399900 "replicate 10000 ()"]
    visibleRange_window
      [of "\<lparr>itemHeight = 40, containerHeight = 400, overscan_opt = None\<rparr>" 5
          "replicate 10000 ()" 399900 "replicate 10000 ()"]
  by simp

section \<open>Aggregation\<close>

subsection \<open>The insertion-ordered map and the grouping loop\<close>

lemma map_of_Map_set: "map_of (Map_set m k v) = (map_of m)(k \<mapsto> v)"
  by (induction m) (auto simp: fun_eq_iff)

lemma keys_Map_set:
  "map fst (Map_set m k v) = (if k \<in> set (map fst m) then map fst m else map fst m @ [k])"
  by (induction m) (fastforce simp: image_iff)+

lemma size_Map_set:
  "sum_list (map (length \<circ> snd) (Map_set m k v)) + (case map_of m k of None \<Rightarrow> 0 | Some old \<Rightarrow> length old)
     = sum_list (map (length \<circ> snd) m) + length v"
  by (induction m) auto

lemma map_of_group_point:
  "map_of (group_point w p bs) =
     (map_of bs)(bucketTimeOf w p \<mapsto> (case map_of bs (bucketTimeOf w p) of None \<Rightarrow> [] | Some ps \<Rightarrow> ps) @ [p])"
  by (auto simp: group_point_def Let_def Map_has_def Map_get_def map_of_Map_set fun_eq_iff
        map_of_eq_None_iff [symmetric] split: option.splits)

lemma keys_group_point:
  "map fst (group_point w p bs) =
     (if bucketTimeOf w p \<in> set (map fst bs) then map fst bs else map fst bs @ [bucketTimeOf w p])"
  by (auto simp: group_point_def Let_def Map_has_def Map_get_def map_of_Map_set keys_Map_set
        split: option.splits)

lemma size_group_point:
  "sum_list (map (length \<circ> snd) (group_point w p bs)) = Suc (sum_list (map (length \<circ> snd) bs))"
proof (cases "map_of bs (bucketTimeOf w p)")
  case None
  then have nk: "bucketTimeOf w p \<notin> set (map fst bs)"
    by (simp add: map_of_eq_None_iff)
  have "sum_list (map (length \<circ> snd) (Map_set bs (bucketTimeOf w p) [])) = sum_list (map (length \<circ> snd) bs)"
    using size_Map_set [of bs "bucketTimeOf w p" "[]"] None by simp
  moreover have "sum_list (map (length \<circ> snd) (Map_set (Map_set bs (bucketTimeOf w p) []) (bucketTimeOf w p) [p]))
      = sum_list (map (length \<circ> snd) (Map_set bs (bucketTimeOf w p) [])) + 1"
    using size_Map_set [of "Map_set bs (bucketTimeOf w p) []" "bucketTimeOf w p" "[p]"]
    by (simp add: map_of_Map_set)
  ultimately show ?thesis
    using nk by (simp add: group_point_def Let_def Map_has_def Map_get_def map_of_Map_set)
next
  case (Some ps)
  then have k: "bucketTimeOf w p \<in> set (map fst bs)"
    by (metis map_of_eq_None_iff option.distinct(1) set_map)
  show ?thesis
    using size_Map_set [of bs "bucketTimeOf w p" "ps @ [p]"] Some k
    by (simp add: group_point_def Let_def Map_has_def Map_get_def)
qed

lemma size_fold_group:
  "sum_list (map (length \<circ> snd) (fold (group_point w) xs bs)) = length xs + sum_list (map (length \<circ> snd) bs)"
  by (induction xs arbitrary: bs) (simp_all add: size_group_point)

lemma keys_fold_group:
  "distinct (map fst bs) \<Longrightarrow> distinct (map fst (fold (group_point w) xs bs))
     \<and> set (map fst (fold (group_point w) xs bs)) = set (map fst bs) \<union> bucketTimeOf w ` set xs"
proof (induction xs arbitrary: bs)
  case Nil
  then show ?case by simp
next
  case (Cons p xs)
  have d: "distinct (map fst (group_point w p bs))"
    using Cons.prems by (simp add: keys_group_point)
  have s: "set (map fst (group_point w p bs)) = insert (bucketTimeOf w p) (set (map fst bs))"
    by (auto simp: keys_group_point)
  show ?case
    using Cons.IH [OF d] s by auto
qed

lemma map_of_fold_group:
  "map_of (fold (group_point w) xs bs) k =
     (if k \<in> bucketTimeOf w ` set xs
      then Some ((case map_of bs k of None \<Rightarrow> [] | Some ps \<Rightarrow> ps) @ members w xs k)
      else map_of bs k)"
proof (induction xs arbitrary: bs)
  case Nil
  then show ?case by simp
next
  case (Cons p xs)
  show ?case
    by (auto simp: Cons.IH map_of_group_point members_def empty_filter_conv filter_empty_conv
          image_iff split: option.splits)
qed


lemma sum_list_insort_key:
  "sum_list (map g (insort_key f x xs)) = (g x :: nat) + sum_list (map g xs)"
  by (induction xs) auto

lemma sum_list_sort_key: "sum_list (map g (sort_key f xs)) = (sum_list (map g xs) :: nat)"
  by (induction xs) (auto simp: sum_list_insort_key)

lemma timestamp_aggregate_bucket: "timestamp (aggregate_bucket (k, ps)) = k"
  by (simp add: aggregate_bucket_def Let_def)

lemma sampleCount_aggregate_bucket: "sampleCount (aggregate_bucket (k, ps)) = length ps"
  by (simp add: aggregate_bucket_def sampleCount_def Let_def)

lemma aggregateData_set:
  "set (aggregateData data w) = aggregate_bucket ` set (fold (group_point w) data [])"
  by (cases data) (simp_all add: aggregateData_def Let_def)

lemma bucket_members:
  assumes "(k, ps) \<in> set (fold (group_point w) data [])"
  shows "k \<in> bucketTimeOf w ` set data \<and> ps = members w data k"
proof -
  have "distinct (map fst (fold (group_point w) data []))"
    using keys_fold_group [of "[]" w data] by simp
  then have "map_of (fold (group_point w) data []) k = Some ps"
    using assms by (rule map_of_is_SomeI)
  then show ?thesis
    by (simp add: map_of_fold_group split: if_splits)
qed

lemma aggregateData_keys:
  "set (map timestamp (aggregateData data w)) = bucketTimeOf w ` set data"
proof -
  have "timestamp ` aggregate_bucket ` set (fold (group_point w) data []) = fst ` set (fold (group_point w) data [])"
    by (force simp: image_iff timestamp_aggregate_bucket)
  also have "\<dots> = bucketTimeOf w ` set data"
    using keys_fold_group [of "[]" w data] by simp
  finally show ?thesis
    by (simp add: aggregateData_set)
qed

lemma aggregateData_counts:
  "sum_list (map sampleCount (aggregateData data w)) = length data"
proof (cases "data = []")
  case True
  then show ?thesis by (simp add: aggregateData_def)
next
  case False
  have "map sampleCount (map aggregate_bucket bs) = map (length \<circ> snd) bs" for bs
    by (induction bs) (auto simp: sampleCount_aggregate_bucket)
  then show ?thesis
    using False size_fold_group [of w data "[]"]
    by (simp add: aggregateData_def Let_def sum_list_sort_key del: map_map)
qed


subsection \<open>Order, keys and counts of the output\<close>

text \<open>
  C3. For every input and every positive bucket width \<open>w\<close>, the output of
  \<open>aggregateData\<close> is sorted by timestamp, its timestamps are exactly the values
  \<open>floor(timestamp / w) * w\<close> of the input samples, the counts of its buckets add up to
  the length of the input, and the empty input gives the empty output.
\<close>

theorem aggregateData_sorted_keys_counts:
  assumes "0 < w"
  shows "sorted (map timestamp (aggregateData data w))
       \<and> set (map timestamp (aggregateData data w))
           = (\<lambda>p. of_int \<lfloor>timestamp p / w\<rfloor> * w) ` set data
       \<and> sum_list (map sampleCount (aggregateData data w)) = length data
       \<and> aggregateData [] w = []"
proof -
  have s: "sorted (map timestamp (aggregateData data w))"
    by (simp add: aggregateData_def Let_def)
  have e: "aggregateData [] w = []"
    by (simp add: aggregateData_def)
  have k: "bucketTimeOf w = (\<lambda>p. of_int \<lfloor>timestamp p / w\<rfloor> * w)"
    by (simp add: bucketTimeOf_def fun_eq_iff)
  show ?thesis
    using s e aggregateData_keys [of data w] aggregateData_counts [of data w]
    unfolding k by blast
qed


theorem aggregateData_sorted_keys_counts_witness:
  "(0::real) < 1000
   \<and> map timestamp (aggregateData
        [\<lparr>timestamp = 1500, val = 40, category = ''humidity'', metadata = None\<rparr>,
         \<lparr>timestamp = 0, val = 10, category = ''temperature'', metadata = None\<rparr>,
         \<lparr>timestamp = 500, val = 20, category = ''pressure'', metadata = None\<rparr>,
         \<lparr>timestamp = 1000, val = 30, category = ''pressure'', metadata = None\<rparr>] 1000)
       = [0, 1000]
   \<and> sum_list (map sampleCount (aggregateData
        [\<lparr>timestamp = 1500, val = 40, category = ''humidity'', metadata = None\<rparr>,
         \<lparr>timestamp = 0, val = 10, category = ''temperature'', metadata = None\<rparr>,
         \<lparr>timestamp = 500, val = 20, category = ''pressure'', metadata = None\<rparr>,
         \<lparr>timestamp = 1000, val = 30, category = ''pressure'', metadata = None\<rparr>] 1000)) = 4"
  using aggregateData_sorted_keys_counts
    [of 1000 "[\<lparr>timestamp = 1500, val = 40, category = ''humidity'', metadata = None\<rparr>,
         \<lparr>timestamp = 0, val = 10, category = ''temperature'', metadata = None\<rparr>,
         \<lparr>timestamp = 500, val = 20, category = ''pressure'', metadata = None\<rparr>,
         \<lparr>timestamp = 1000, val = 30, category = ''pressure'', metadata = None\<rparr>]"]
  by (simp add: aggregateData_def group_point_def bucketTimeOf_def Map_has_def Map_get_def
        aggregate_bucket_def Let_def)

subsection \<open>The summary of one bucket\<close>

lemma val_aggregate_bucket:
  "val (aggregate_bucket (k, ps))
     = Math_round (sum_list (map val ps) / real (length ps) * 100) / 100"
  by (simp add: aggregate_bucket_def Let_def)

lemma aggregateData_scenario:
  "aggregateData
     [\<lparr>timestamp = 0, val = 10, category = c1, metadata = m1\<rparr>,
      \<lparr>timestamp = 500, val = 20, category = c2, metadata = m2\<rparr>,
      \<lparr>timestamp = 1500, val = 40, category = c3, metadata = m3\<rparr>] 1000
   = [\<lparr>timestamp = 0, val = 15, category = c1, metadata = Some (BucketMeta 2 10 20 15)\<rparr>,
      \<lparr>timestamp = 1000, val = 40, category = c3, metadata = Some (BucketMeta 1 40 40 40)\<rparr>]"
  by (simp add: aggregateData_def group_point_def bucketTimeOf_def Map_has_def Map_get_def
        aggregate_bucket_def Math_min_def Math_max_def Math_round_def Let_def)

lemma aggregateData_member_summary:
  assumes "b \<in> set (aggregateData data w)"
  shows "members w data (timestamp b) \<noteq> []
       \<and> metadata b = Some (BucketMeta (length (members w data (timestamp b)))
                               (Min (set (map val (members w data (timestamp b)))))
                               (Max (set (map val (members w data (timestamp b)))))
                               (sum_list (map val (members w data (timestamp b)))
                                  / real (length (members w data (timestamp b)))))
       \<and> category b = category (hd (members w data (timestamp b)))"
proof -
  obtain k ps where kp: "(k, ps) \<in> set (fold (group_point w) data [])"
    and b: "b = aggregate_bucket (k, ps)"
    using assms by (auto simp: aggregateData_set)
  have k: "k \<in> bucketTimeOf w ` set data" and ps: "ps = members w data k"
    using bucket_members [OF kp] by simp_all
  have ne: "members w data k \<noteq> []"
    using k by (auto simp: members_def filter_empty_conv)
  have tb: "timestamp b = k"
    by (simp add: b timestamp_aggregate_bucket)
  show ?thesis
    using ne
    by (simp add: tb)
      (simp add: b ps aggregate_bucket_def Let_def Math_min_def Math_max_def hd_conv_nth)
qed

text \<open>
  C8. For a positive bucket width, every bucket of the output has at least one member
  (the input samples whose key is the bucket's start, in input order); its
  \<open>metadata\<close> holds their number as \<open>count\<close>, the minimum and maximum of their values as
  \<open>min\<close> and \<open>max\<close> and their arithmetic mean as \<open>avg\<close>, and its category is the first
  member's. Samples at 0, 500 and 1500 with values 10, 20 and 40 and width 1000 give
  exactly the two buckets start 0, mean 15, count 2 and start 1000, mean 40, count 1.
\<close>

theorem aggregateData_bucket_summary:
  "(0 < w \<and> b \<in> set (aggregateData data w) \<longrightarrow>
      members w data (timestamp b) \<noteq> []
      \<and> metadata b = Some (BucketMeta (length (members w data (timestamp b)))
                              (Min (set (map val (members w data (timestamp b)))))
                              (Max (set (map val (members w data (timestamp b)))))
                              (sum_list (map val (members w data (timestamp b)))
                                 / real (length (members w data (timestamp b)))))
      \<and> category b = category (hd (members w data (timestamp b))))
   \<and> aggregateData
       [\<lparr>timestamp = 0, val = 10, category = c1, metadata = m1\<rparr>,
        \<lparr>timestamp = 500, val = 20, category = c2, metadata = m2\<rparr>,
        \<lparr>timestamp = 1500, val = 40, category = c3, metadata = m3\<rparr>] 1000
     = [\<lparr>timestamp = 0, val = 15, category = c1, metadata = Some (BucketMeta 2 10 20 15)\<rparr>,
        \<lparr>timestamp = 1000, val = 40, category = c3, metadata = Some (BucketMeta 1 40 40 40)\<rparr>]"
  using aggregateData_member_summary [of b data w] aggregateData_scenario [of c1 m1 c2 m2 c3 m3]
  by blast

theorem aggregateData_bucket_summary_witness:
  "(0::real) < 1000
   \<and> \<lparr>timestamp = 0, val = 15, category = ''temperature'',
        metadata = Some (BucketMeta 2 10 20 15)\<rparr>
       \<in> set (aggregateData
            [\<lparr>timestamp = 0, val = 10, category = ''temperature'', metadata = None\<rparr>,
             \<lparr>timestamp = 500, val = 20, category = ''pressure'', metadata = None\<rparr>,
             \<lparr>timestamp = 1500, val = 40, category = ''humidity'', metadata = None\<rparr>] 1000)
   \<and> members 1000
        [\<lparr>timestamp = 0, val = 10, category = ''temperature'', metadata = None\<rparr>,
         \<lparr>timestamp = 500, val = 20, category = ''pressure'', metadata = None\<rparr>,
         \<lparr>timestamp = 1500, val = 40, category = ''humidity'', metadata = None\<rparr>] 0
       = [\<lparr>timestamp = 0, val = 10, category = ''temperature'', metadata = None\<rparr>,
          \<lparr>timestamp = 500, val = 20, category = ''pressure'', metadata = None\<rparr>]"
  using aggregateData_bucket_summary
    [of 1000
        "\<lparr>timestamp = 0, val = 15, category = ''temperature'',
           metadata = Some (BucketMeta 2 10 20 15)\<rparr>"
        "[\<lparr>timestamp = 0, val = 10, category = ''temperature'', metadata = None\<rparr>,
          \<lparr>timestamp = 500, val = 20, category = ''pressure'', metadata = None\<rparr>,
          \<lparr>timestamp = 1500, val = 40, category = ''humidity'', metadata = None\<rparr>]"]
  by (simp add: aggregateData_scenario members_def bucketTimeOf_def)

section \<open>Filtering\<close>

lemma keep_None: "filterData_keep None (minValue f) (maxValue f) (timeRange f) p = in_bounds f p"
  by (auto simp: filterData_keep_def in_bounds_def split: option.splits)

lemma in_bounds_unconstrained:
  "minValue f = None \<Longrightarrow> maxValue f = None \<Longrightarrow> timeRange f = None \<Longrightarrow> in_bounds f p"
  by (simp add: in_bounds_def)


lemma filterData_empty_array: "filterData data (Some []) lo hi tr = []"
  by (simp add: filterData_def filterData_keep_def)

lemma keep_Some:
  "filterData_keep (Some cs) (minValue f) (maxValue f) (timeRange f) p
     = (category p \<in> set cs \<and> in_bounds f p)"
  by (auto simp: filterData_keep_def in_bounds_def split: option.splits)

text \<open>
  C1, as stated, fails for \<open>filterData\<close>: an empty array is a category constraint that no
  sample meets, so a sample within all bounds is dropped.
\<close>

theorem filterData_empty_categories_drops:
  "in_bounds \<lparr>categories = [], minValue = None, maxValue = None, timeRange = None\<rparr>
     \<lparr>timestamp = 500, val = 20, category = ''pressure'', metadata = None\<rparr>
   \<and> filterData [\<lparr>timestamp = 500, val = 20, category = ''pressure'', metadata = None\<rparr>]
        (Some []) None None None = []"
  by (simp add: in_bounds_def filterData_def filterData_keep_def)

text \<open>
  C1, amended. For every sequence and every filter with an empty category list, the
  provider's filter keeps exactly the samples whose value lies within the present bounds
  and whose timestamp lies within the time range when there is one, whatever their
  category; with the aggregation period \<open>1min\<close> that is the whole \<open>filteredData\<close>. With a
  category list that is not empty it keeps those of them whose category is in the list.
  \<open>filterData\<close> itself imposes no category constraint only when it is given no category
  list; given a list it keeps the samples within the bounds whose category is in the
  list, so given the empty list it keeps none.
\<close>

theorem applyFilters_no_categories:
  "(categories filters = [] \<longrightarrow>
      applyFilters data filters = filter (in_bounds filters) data
      \<and> filteredData data filters P1min = filter (in_bounds filters) data)
   \<and> (categories filters \<noteq> [] \<longrightarrow>
      applyFilters data filters
        = filter (\<lambda>p. category p \<in> set (categories filters) \<and> in_bounds filters p) data)
   \<and> filterData data None (minValue filters) (maxValue filters) (timeRange filters)
       = filter (in_bounds filters) data
   \<and> filterData data (Some cs) (minValue filters) (maxValue filters) (timeRange filters)
       = filter (\<lambda>p. category p \<in> set cs \<and> in_bounds filters p) data
   \<and> filterData data (Some []) lo hi tr = []"
proof -
  have fd: "filterData data None (minValue filters) (maxValue filters) (timeRange filters)
           = filter (in_bounds filters) data"
    by (simp add: filterData_def keep_None cong: filter_cong)
  have fs: "filterData data (Some cs) (minValue filters) (maxValue filters) (timeRange filters)
       = filter (\<lambda>p. category p \<in> set cs \<and> in_bounds filters p) data" for cs
    by (simp add: filterData_def keep_Some cong: filter_cong)
  have A: "applyFilters data filters = filter (in_bounds filters) data"
    if e: "categories filters = []"
  proof (cases "minValue filters \<noteq> None \<or> maxValue filters \<noteq> None \<or> timeRange filters \<noteq> None")
    case True
    then show ?thesis
      using e fd by (simp add: applyFilters_def)
  next
    case False
    then have "filter (in_bounds filters) data = data"
      by (simp add: in_bounds_unconstrained)
    then show ?thesis
      using e False by (simp add: applyFilters_def)
  qed
  have B: "filteredData data filters P1min = filter (in_bounds filters) data"
    if e: "categories filters = []"
    using A [OF e] by (simp add: filteredData_def)
  have C: "applyFilters data filters
        = filter (\<lambda>p. category p \<in> set (categories filters) \<and> in_bounds filters p) data"
    if "categories filters \<noteq> []"
    using that fs [of "categories filters"] by (simp add: applyFilters_def)
  have D: "filterData data (Some []) lo hi tr = []"
    by (rule filterData_empty_array)
  show ?thesis
    using A B C D fd fs [of cs] by blast
qed

theorem applyFilters_no_categories_witness:
  "categories \<lparr>categories = [], minValue = Some 15, maxValue = None,
           timeRange = Some \<lparr>range_start = 0, range_end = 1000\<rparr>\<rparr> = []
   \<and> filteredData
        [\<lparr>timestamp = 0, val = 10, category = ''temperature'', metadata = None\<rparr>,
         \<lparr>timestamp = 500, val = 20, category = ''pressure'', metadata = None\<rparr>,
         \<lparr>timestamp = 1000, val = 30, category = ''voltage'', metadata = None\<rparr>,
         \<lparr>timestamp = 1500, val = 40, category = ''humidity'', metadata = None\<rparr>]
        \<lparr>categories = [], minValue = Some 15, maxValue = None,
           timeRange = Some \<lparr>range_start = 0, range_end = 1000\<rparr>\<rparr>
        P1min
      = [\<lparr>timestamp = 500, val = 20, category = ''pressure'', metadata = None\<rparr>,
         \<lparr>timestamp = 1000, val = 30, category = ''voltage'', metadata = None\<rparr>]
   \<and> categories \<lparr>categories = [''pressure''], minValue = Some 15, maxValue = None,
           timeRange = Some \<lparr>range_start = 0, range_end = 1000\<rparr>\<rparr> \<noteq> []
   \<and> applyFilters
        [\<lparr>timestamp = 0, val = 10, category = ''temperature'', metadata = None\<rparr>,
         \<lparr>timestamp = 500, val = 20, category = ''pressure'', metadata = None\<rparr>,
         \<lparr>timestamp = 1000, val = 30, category = ''voltage'', metadata = None\<rparr>,
         \<lparr>timestamp = 1500, val = 40, category = ''humidity'', metadata = None\<rparr>]
        \<lparr>categories = [''pressure''], minValue = Some 15, maxValue = None,
           timeRange = Some \<lparr>range_start = 0, range_end = 1000\<rparr>\<rparr>
      = [\<lparr>timestamp = 500, val = 20, category = ''pressure'', metadata = None\<rparr>]"
  using applyFilters_no_categories
      [of "\<lparr>categories = [], minValue = Some 15, maxValue = None,
           timeRange = Some \<lparr>range_start = 0, range_end = 1000\<rparr>\<rparr>"
          "[\<lparr>timestamp = 0, val = 10, category = ''temperature'', metadata = None\<rparr>,
         \<lparr>timestamp = 500, val = 20, category = ''pressure'', metadata = None\<rparr>,
         \<lparr>timestamp = 1000, val = 30, category = ''voltage'', metadata = None\<rparr>,
         \<lparr>timestamp = 1500, val = 40, category = ''humidity'', metadata = None\<rparr>]"]
    applyFilters_no_categories
      [of "\<lparr>categories = [''pressure''], minValue = Some 15, maxValue = None,
           timeRange = Some \<lparr>range_start = 0, range_end = 1000\<rparr>\<rparr>"
          "[\<lparr>timestamp = 0, val = 10, category = ''temperature'', metadata = None\<rparr>,
         \<lparr>timestamp = 500, val = 20, category = ''pressure'', metadata = None\<rparr>,
         \<lparr>timestamp = 1000, val = 30, category = ''voltage'', metadata = None\<rparr>,
         \<lparr>timestamp = 1500, val = 40, category = ''humidity'', metadata = None\<rparr>]"]
  by (simp add: in_bounds_def)

section \<open>Viewport\<close>

lemma Min_lt_Max_iff:
  fixes xs :: "real list"
  assumes "xs \<noteq> []"
  shows "Min (set xs) < Max (set xs) \<longleftrightarrow> (\<exists>a\<in>set xs. \<exists>b\<in>set xs. a \<noteq> b)"
proof
  assume "Min (set xs) < Max (set xs)"
  moreover have "Min (set xs) \<in> set xs" "Max (set xs) \<in> set xs"
    using assms by (simp_all add: Min_in Max_in)
  ultimately show "\<exists>a\<in>set xs. \<exists>b\<in>set xs. a \<noteq> b"
    by (metis less_irrefl)
next
  assume "\<exists>a\<in>set xs. \<exists>b\<in>set xs. a \<noteq> b"
  then obtain a b where ab: "a \<in> set xs" "b \<in> set xs" "a < b"
    by (metis linorder_neqE_linordered_idom)
  have "Min (set xs) \<le> a" "b \<le> Max (set xs)"
    using ab by simp_all
  then show "Min (set xs) < Max (set xs)"
    using ab(3) by linarith
qed

lemma Min_le_Max: "xs \<noteq> [] \<Longrightarrow> Min (set xs) \<le> (Max (set xs) :: real)"
  by (simp add: Min_in)


lemma pad_case:
  "padding_arg = Some pad \<or> padding_arg = None \<and> pad = 1 / 10 \<Longrightarrow>
     (case padding_arg of None \<Rightarrow> 1 / 10 | Some p \<Rightarrow> p) = pad"
  by auto

lemma calculateViewport_values:
  assumes "data \<noteq> []"
      and "padding_arg = Some pad \<or> padding_arg = None \<and> pad = 1 / 10"
  shows "calculateViewport now1 now2 data padding_arg
           = \<lparr>xMin = Min (set (map timestamp data))
                    - (Max (set (map timestamp data)) - Min (set (map timestamp data))) * pad,
              xMax = Max (set (map timestamp data))
                    + (Max (set (map timestamp data)) - Min (set (map timestamp data))) * pad,
              yMin = max 0 (Min (set (map val data))
                    - (Max (set (map val data)) - Min (set (map val data))) * pad),
              yMax = Max (set (map val data))
                    + (Max (set (map val data)) - Min (set (map val data))) * pad\<rparr>"
  using assms(1)
  unfolding calculateViewport_def Let_def pad_case [OF assms(2)] Math_min_def Math_max_def
  by simp

text \<open>
  C2, as stated, fails: for a single sample the computed viewport has \<open>xMax = xMin\<close> and
  \<open>yMax = yMin\<close>; no range is substituted.
\<close>

theorem calculateViewport_zero_width:
  "\<not> (xMin (calculateViewport 0 0
          [\<lparr>timestamp = 1000, val = 50, category = ''temperature'', metadata = None\<rparr>] None)
        < xMax (calculateViewport 0 0
          [\<lparr>timestamp = 1000, val = 50, category = ''temperature'', metadata = None\<rparr>] None)
      \<and> yMin (calculateViewport 0 0
          [\<lparr>timestamp = 1000, val = 50, category = ''temperature'', metadata = None\<rparr>] None)
        < yMax (calculateViewport 0 0
          [\<lparr>timestamp = 1000, val = 50, category = ''temperature'', metadata = None\<rparr>] None))"
  by (simp add: calculateViewport_def Math_min_def Math_max_def)

text \<open>
  C2, amended. For a non-empty input and padding \<open>pad\<close> (the one given, or 0.1 when none
  is given), no range is substituted: the viewport is \<open>xMin = min - range * pad\<close>,
  \<open>xMax = max + range * pad\<close> over the timestamps and \<open>yMin = max(0, min - range * pad)\<close>,
  \<open>yMax = max + range * pad\<close> over the values. So when \<open>pad\<close> is not negative,
  \<open>xMax \<ge> xMin\<close>, and \<open>xMax > xMin\<close> exactly when two samples differ in timestamp (equal
  timestamps give a viewport of width zero); and when moreover no value is negative,
  \<open>yMax \<ge> yMin\<close>, and \<open>yMax > yMin\<close> exactly when two samples differ in value.
\<close>

theorem calculateViewport_ranges:
  assumes "data \<noteq> []"
      and "padding_arg = Some pad \<or> padding_arg = None \<and> pad = 1 / 10"
  shows "calculateViewport now1 now2 data padding_arg
           = \<lparr>xMin = Min (set (map timestamp data))
                    - (Max (set (map timestamp data)) - Min (set (map timestamp data))) * pad,
              xMax = Max (set (map timestamp data))
                    + (Max (set (map timestamp data)) - Min (set (map timestamp data))) * pad,
              yMin = max 0 (Min (set (map val data))
                    - (Max (set (map val data)) - Min (set (map val data))) * pad),
              yMax = Max (set (map val data))
                    + (Max (set (map val data)) - Min (set (map val data))) * pad\<rparr>
       \<and> (0 \<le> pad \<longrightarrow>
            xMin (calculateViewport now1 now2 data padding_arg)
              \<le> xMax (calculateViewport now1 now2 data padding_arg)
          \<and> (xMin (calculateViewport now1 now2 data padding_arg)
               < xMax (calculateViewport now1 now2 data padding_arg)
             \<longleftrightarrow> (\<exists>p\<in>set data. \<exists>q\<in>set data. timestamp p \<noteq> timestamp q))
          \<and> ((\<forall>p\<in>set data. 0 \<le> val p) \<longrightarrow>
               yMin (calculateViewport now1 now2 data padding_arg)
                 \<le> yMax (calculateViewport now1 now2 data padding_arg)
             \<and> (yMin (calculateViewport now1 now2 data padding_arg)
                  < yMax (calculateViewport now1 now2 data padding_arg)
                \<longleftrightarrow> (\<exists>p\<in>set data. \<exists>q\<in>set data. val p \<noteq> val q))))"
proof -
  define ts where "ts = map timestamp data"
  define vs where "vs = map val data"
  have ne: "ts \<noteq> []" "vs \<noteq> []"
    using assms(1) by (simp_all add: ts_def vs_def)
  define xr where "xr = Max (set ts) - Min (set ts)"
  define yr where "yr = Max (set vs) - Min (set vs)"
  have xr: "0 \<le> xr" and yr: "0 \<le> yr"
    using Min_le_Max [OF ne(1)] Min_le_Max [OF ne(2)] by (simp_all add: xr_def yr_def)
  have xr_pos: "0 < xr \<longleftrightarrow> (\<exists>p\<in>set data. \<exists>q\<in>set data. timestamp p \<noteq> timestamp q)"
    using Min_lt_Max_iff [OF ne(1)] by (auto simp: xr_def ts_def)
  have yr_pos: "0 < yr \<longleftrightarrow> (\<exists>p\<in>set data. \<exists>q\<in>set data. val p \<noteq> val q)"
    using Min_lt_Max_iff [OF ne(2)] by (auto simp: yr_def vs_def)
  have vp: "calculateViewport now1 now2 data padding_arg =
      \<lparr>xMin = Min (set ts) - xr * pad, xMax = Max (set ts) + xr * pad,
       yMin = max 0 (Min (set vs) - yr * pad), yMax = Max (set vs) + yr * pad\<rparr>"
    unfolding ts_def vs_def xr_def yr_def
    by (rule calculateViewport_values [OF assms])
  have R: "Min (set ts) - xr * pad \<le> Max (set ts) + xr * pad
       \<and> (Min (set ts) - xr * pad < Max (set ts) + xr * pad
          \<longleftrightarrow> (\<exists>p\<in>set data. \<exists>q\<in>set data. timestamp p \<noteq> timestamp q))
       \<and> ((\<forall>p\<in>set data. 0 \<le> val p) \<longrightarrow>
            max 0 (Min (set vs) - yr * pad) \<le> Max (set vs) + yr * pad
          \<and> (max 0 (Min (set vs) - yr * pad) < Max (set vs) + yr * pad
             \<longleftrightarrow> (\<exists>p\<in>set data. \<exists>q\<in>set data. val p \<noteq> val q)))"
    if pad: "0 \<le> pad"
  proof -
    have xp: "0 \<le> xr * pad" and yp: "0 \<le> yr * pad"
      using pad xr yr by simp_all
    have xe: "Max (set ts) = Min (set ts) + xr" and ye: "Max (set vs) = Min (set vs) + yr"
      by (simp_all add: xr_def yr_def)
    have X1: "Min (set ts) - xr * pad \<le> Max (set ts) + xr * pad"
      using xp xr xe by linarith
    have X2: "Min (set ts) - xr * pad < Max (set ts) + xr * pad \<longleftrightarrow> 0 < xr"
    proof (cases "xr = 0")
      case True
      then show ?thesis using xe by simp
    next
      case False
      then have "0 < xr" using xr by simp
      then show ?thesis using xp xe by linarith
    qed
    have Y: "max 0 (Min (set vs) - yr * pad) \<le> Max (set vs) + yr * pad
           \<and> (max 0 (Min (set vs) - yr * pad) < Max (set vs) + yr * pad \<longleftrightarrow> 0 < yr)"
      if nn: "\<forall>p\<in>set data. 0 \<le> val p"
    proof -
      have "Min (set vs) \<in> set vs"
        using ne(2) by (simp add: Min_in)
      then have m0: "0 \<le> Min (set vs)"
        using nn by (auto simp: vs_def)
      have le: "max 0 (Min (set vs) - yr * pad) \<le> Min (set vs)"
        using m0 yp by simp
      show ?thesis
      proof (cases "yr = 0")
        case True
        then show ?thesis using ye m0 by simp
      next
        case False
        then have "0 < yr" using yr by simp
        then have "Min (set vs) < Max (set vs) + yr * pad"
          using yp ye by linarith
        then show ?thesis using le \<open>0 < yr\<close> by linarith
      qed
    qed
    show ?thesis
      using X1 X2 Y xr_pos yr_pos by simp
  qed
  have V: "calculateViewport now1 now2 data padding_arg
           = \<lparr>xMin = Min (set (map timestamp data))
                    - (Max (set (map timestamp data)) - Min (set (map timestamp data))) * pad,
              xMax = Max (set (map timestamp data))
                    + (Max (set (map timestamp data)) - Min (set (map timestamp data))) * pad,
              yMin = max 0 (Min (set (map val data))
                    - (Max (set (map val data)) - Min (set (map val data))) * pad),
              yMax = Max (set (map val data))
                    + (Max (set (map val data)) - Min (set (map val data))) * pad\<rparr>"
    by (rule calculateViewport_values [OF assms])
  have "0 \<le> pad \<longrightarrow>
            xMin (calculateViewport now1 now2 data padding_arg)
              \<le> xMax (calculateViewport now1 now2 data padding_arg)
          \<and> (xMin (calculateViewport now1 now2 data padding_arg)
               < xMax (calculateViewport now1 now2 data padding_arg)
             \<longleftrightarrow> (\<exists>p\<in>set data. \<exists>q\<in>set data. timestamp p \<noteq> timestamp q))
          \<and> ((\<forall>p\<in>set data. 0 \<le> val p) \<longrightarrow>
               yMin (calculateViewport now1 now2 data padding_arg)
                 \<le> yMax (calculateViewport now1 now2 data padding_arg)
             \<and> (yMin (calculateViewport now1 now2 data padding_arg)
                  < yMax (calculateViewport now1 now2 data padding_arg)
                \<longleftrightarrow> (\<exists>p\<in>set data. \<exists>q\<in>set data. val p \<noteq> val q)))"
    unfolding vp using R by simp
  then show ?thesis
    using V by blast
qed

theorem calculateViewport_ranges_witness:
  "[\<lparr>timestamp = 0, val = 10, category = ''temperature'', metadata = None\<rparr>,
         \<lparr>timestamp = 1000, val = 10, category = ''pressure'', metadata = None\<rparr>] \<noteq> []
   \<and> (0::real) \<le> 1 / 10
   \<and> calculateViewport 0 0
        [\<lparr>timestamp = 0, val = 10, category = ''temperature'', metadata = None\<rparr>,
         \<lparr>timestamp = 1000, val = 10, category = ''pressure'', metadata = None\<rparr>] None
      = \<lparr>xMin = - 100, xMax = 1100, yMin = 10, yMax = 10\<rparr>
   \<and> calculateViewport 0 0
        [\<lparr>timestamp = 0, val = 10, category = ''temperature'', metadata = None\<rparr>,
         \<lparr>timestamp = 1000, val = 10, category = ''pressure'', metadata = None\<rparr>] (Some (1 / 2))
      = \<lparr>xMin = - 500, xMax = 1500, yMin = 10, yMax = 10\<rparr>"
  using calculateViewport_ranges
      [of "[\<lparr>timestamp = 0, val = 10, category = ''temperature'', metadata = None\<rparr>,
         \<lparr>timestamp = 1000, val = 10, category = ''pressure'', metadata = None\<rparr>]" None "1 / 10" 0 0]
    calculateViewport_ranges
      [of "[\<lparr>timestamp = 0, val = 10, category = ''temperature'', metadata = None\<rparr>,
         \<lparr>timestamp = 1000, val = 10, category = ''pressure'', metadata = None\<rparr>]" "Some (1 / 2)" "1 / 2" 0 0]
  by simp

section \<open>Bounded stream buffer\<close>

lemma slice_last_n:
  "0 < n \<Longrightarrow> Array_slice xs (- n) None = last_n (nat n) xs"
  by (auto simp: Array_slice_def slice_index_def last_n_def Let_def max_def nat_diff_distrib')

lemma appendBatch_last_n:
  "0 < n \<Longrightarrow> appendBatch n prev new = last_n (nat n) (prev @ new)"
  by (auto simp: appendBatch_def Let_def slice_last_n last_n_def)

lemma appendPoint_appendBatch: "appendPoint n prev p = appendBatch n prev [p]"
  by (simp add: appendPoint_def appendBatch_def)

lemma last_n_last_n_snoc:
  assumes "0 < n"
  shows "last_n n (last_n n xs @ [x]) = last_n n (xs @ [x])"
proof -
  have "Suc (length xs) - (length xs - n + n) + (length xs - n) = Suc (length xs) - n"
    using assms by arith
  then show ?thesis
    by (simp add: last_n_def)
qed

lemma fold_appendPoint:
  assumes "0 < n" "samples \<noteq> []"
  shows "fold (\<lambda>p buf. appendPoint n buf p) samples start = last_n (nat n) (start @ samples)"
  using assms(2)
proof (induction samples rule: rev_induct)
  case Nil
  then show ?case by simp
next
  case (snoc x xs)
  show ?case
  proof (cases "xs = []")
    case True
    then show ?thesis using assms(1) by (simp add: appendPoint_appendBatch appendBatch_last_n)
  next
    case False
    then have "fold (\<lambda>p buf. appendPoint n buf p) xs start = last_n (nat n) (start @ xs)"
      by (rule snoc.IH)
    then show ?thesis
      using assms(1) last_n_last_n_snoc [of "nat n" "start @ xs" x]
      by (simp add: appendPoint_appendBatch appendBatch_last_n)
  qed
qed

lemma length_last_n: "length (last_n n xs) = min n (length xs)"
  by (simp add: last_n_def)

lemma last_n_append: "n \<le> length ys \<Longrightarrow> last_n n (xs @ ys) = last_n n ys"
  by (simp add: last_n_def)


lemma length_appendBatch: "0 < n \<Longrightarrow> int (length (appendBatch n start xs)) \<le> n"
  by (simp add: appendBatch_last_n length_last_n)

lemma last_n_last_n_append: "last_n n (last_n n xs @ ys) = last_n n (xs @ ys)"
proof (cases "length xs \<le> n")
  case True
  then show ?thesis by (simp add: last_n_def)
next
  case False
  then have "length xs - n + n = length xs" by simp
  then show ?thesis
    using False by (simp add: last_n_def add.commute)
qed

lemma streamTick_data:
  "stream_data (fst (streamTick options now (s, rs)))
     = appendPoint (maxDataPoints options) (stream_data s)
         (fst (generateNext (generatorRef s) rs
                 (if lastTimestampRef s \<noteq> 0 then lastTimestampRef s else now)))"
  by (simp add: streamTick_def split: prod.splits)

lemma length_tick_points: "length (tick_points nows l g rs) = length nows"
  by (induction nows arbitrary: l g rs) (auto split: prod.splits)

lemma length_next_points: "length (next_points k l g rs) = k"
  by (induction k arbitrary: l g rs) (auto split: prod.splits)

lemma fold_streamTick:
  assumes "0 < maxDataPoints options"
  shows "stream_data (fst (fold (streamTick options) nows (s, rs)))
     = (if nows = [] then stream_data s
        else last_n (nat (maxDataPoints options))
               (stream_data s @ tick_points nows (lastTimestampRef s) (generatorRef s) rs))"
proof (induction nows arbitrary: s rs)
  case Nil
  then show ?case by simp
next
  case (Cons now nows)
  obtain p g' rs' where gp:
    "generateNext (generatorRef s) rs (if lastTimestampRef s \<noteq> 0 then lastTimestampRef s else now)
       = (p, g', rs')"
    by (cases "generateNext (generatorRef s) rs
                 (if lastTimestampRef s \<noteq> 0 then lastTimestampRef s else now)") auto
  define s' where "s' = s\<lparr>stream_data := appendPoint (maxDataPoints options) (stream_data s) p,
                generatorRef := g', lastTimestampRef := timestamp p\<rparr>"
  have st: "streamTick options now (s, rs) = (s', rs')"
    by (simp add: streamTick_def gp s'_def)
  have d: "stream_data s' = last_n (nat (maxDataPoints options)) (stream_data s @ [p])"
    using assms by (simp add: s'_def appendPoint_appendBatch appendBatch_last_n)
  have tp: "tick_points (now # nows) (lastTimestampRef s) (generatorRef s) rs
      = p # tick_points nows (timestamp p) g' rs'"
    by (simp add: gp)
  have "stream_data (fst (fold (streamTick options) (now # nows) (s, rs)))
      = stream_data (fst (fold (streamTick options) nows (s', rs')))"
    by (simp add: st)
  also have "\<dots> = (if nows = [] then stream_data s'
        else last_n (nat (maxDataPoints options))
               (stream_data s' @ tick_points nows (lastTimestampRef s') (generatorRef s') rs'))"
    by (rule Cons.IH)
  also have "\<dots> = last_n (nat (maxDataPoints options))
               (stream_data s @ p # tick_points nows (timestamp p) g' rs')"
    using last_n_last_n_append [of "nat (maxDataPoints options)" "stream_data s @ [p]"
        "tick_points nows (timestamp p) g' rs'"]
    by (simp add: d) (simp add: s'_def)
  finally show ?case
    by (simp only: tp list.simps if_False)
qed

lemma fold_addDataPoints_step:
  "fst (fold addDataPoints_step ks (acc, l, g, rs)) = acc @ next_points (length ks) l g rs"
proof (induction ks arbitrary: acc l g rs)
  case Nil
  then show ?case by simp
next
  case (Cons k ks)
  obtain p g' rs' where gp: "generateNext g rs l = (p, g', rs')"
    by (cases "generateNext g rs l") auto
  have "addDataPoints_step k (acc, l, g, rs) = (acc @ [p], timestamp p, g', rs')"
    by (simp add: addDataPoints_step_def gp)
  then show ?case
    by (simp add: Cons.IH gp)
qed

lemma addDataPoints_data:
  "stream_data (fst (addDataPoints options now count (s, rs)))
     = appendBatch (maxDataPoints options) (stream_data s)
         (next_points (nat count)
            (if stream_data s \<noteq> [] then timestamp (last (stream_data s)) else now)
            (generatorRef s) rs)"
proof -
  define l where "l = (if stream_data s \<noteq> [] then timestamp (last (stream_data s)) else now)"
  have l: "(if 0 < length (stream_data s)
            then timestamp (stream_data s ! (length (stream_data s) - 1)) else now) = l"
    by (simp add: l_def last_conv_nth)
  obtain ps l' g' rs' where f:
    "fold addDataPoints_step [0..<nat count] ([], l, generatorRef s, rs) = (ps, l', g', rs')"
    by (cases "fold addDataPoints_step [0..<nat count] ([], l, generatorRef s, rs)") auto
  have ps: "ps = next_points (nat count) l (generatorRef s) rs"
    using fold_addDataPoints_step [of "[0..<nat count]" "[]" l "generatorRef s" rs] f by simp
  have "addDataPoints options now count (s, rs)
      = (s\<lparr>stream_data := appendBatch (maxDataPoints options) (stream_data s) ps,
            generatorRef := g'\<rparr>, rs')"
    unfolding addDataPoints_def Let_def prod.case l f by simp
  then show ?thesis
    by (simp add: ps l_def)
qed

lemma length_generateBatch_fold:
  "length (fst (fold (generateBatch_step start) ks (points, g, rs))) = length points + length ks"
proof (induction ks arbitrary: points g rs)
  case Nil
  then show ?case by simp
next
  case (Cons k ks)
  obtain p g' rs' where gp: "generatePoint g rs None (Some (start + real k * 100)) = (p, g', rs')"
    by (cases "generatePoint g rs None (Some (start + real k * 100))") auto
  have "generateBatch_step start k (points, g, rs) = (points @ [p], g', rs')"
    by (simp add: generateBatch_step_def gp)
  then show ?case
    by (simp add: Cons.IH)
qed

lemma length_generateBatch: "length (fst (generateBatch g rs count start)) = nat count"
  by (simp add: generateBatch_def Let_def length_generateBatch_fold)

lemma useDataStream_initial:
  "\<exists>s rs'. useDataStream options now rs = Inr (s, rs')
      \<and> stream_data s = fst (generateBatch (DataGenerator_new now) rs (initialCount options) None)
      \<and> length (stream_data s) = nat (initialCount options)
      \<and> \<not> isStreaming s \<and> \<not> intervalRef s"
proof -
  obtain ps g rs' where gb:
    "generateBatch (DataGenerator_new now) rs (initialCount options) None = (ps, g, rs')"
    by (cases "generateBatch (DataGenerator_new now) rs (initialCount options) None") auto
  have "length ps = nat (initialCount options)"
    using length_generateBatch [of "DataGenerator_new now" rs "initialCount options" None] gb
    by simp
  then show ?thesis
    by (simp add: useDataStream_def gb)
qed

lemma resetData_length:
  "length (stream_data (fst (resetData options now (s, rs)))) = nat (initialCount options)"
proof -
  obtain ps g rs' where gb:
    "generateBatch (reset (generatorRef (stopStreaming s)) now) rs (initialCount options) None
       = (ps, g, rs')"
    by (cases "generateBatch (reset (generatorRef (stopStreaming s)) now) rs
                 (initialCount options) None") auto
  have "length ps = nat (initialCount options)"
    using length_generateBatch [of "reset (generatorRef (stopStreaming s)) now" rs
        "initialCount options" None] gb by simp
  then show ?thesis
    by (simp add: resetData_def Let_def gb)
qed


lemma appendPoint_zero: "appendPoint 0 prev p = prev @ [p]"
  by (simp add: appendPoint_def Array_slice_def slice_index_def)

text \<open>
  C6, as stated, fails. With capacity 0 a tick on the empty buffer leaves one sample
  in it, more than the capacity; and a stream constructed with capacity 2 and an initial
  count of 5 starts with 5 samples in its buffer.
\<close>

theorem stream_exceeds_capacity:
  "maxDataPoints_opt \<lparr>updateInterval_opt = None, maxDataPoints_opt = Some 0, initialCount_opt = Some 0\<rparr> = Some 0
   \<and> length (stream_data (fst (streamTick \<lparr>updateInterval_opt = None, maxDataPoints_opt = Some 0, initialCount_opt = Some 0\<rparr> 0
        (\<lparr>stream_data = [], isStreaming = True, generatorRef = DataGenerator_new 0,
           intervalRef = True, lastTimestampRef = 0\<rparr>, sconst (1 / 2))))) = 1
   \<and> maxDataPoints_opt \<lparr>updateInterval_opt = None, maxDataPoints_opt = Some 2, initialCount_opt = Some 5\<rparr> = Some 2
   \<and> (case useDataStream \<lparr>updateInterval_opt = None, maxDataPoints_opt = Some 2, initialCount_opt = Some 5\<rparr> 0
              (sconst (1 / 2)) of
         Inr (s0, rs0) \<Rightarrow> length (stream_data s0) | Inl e \<Rightarrow> 0) = 5"
proof -
  have a: "length (stream_data (fst (streamTick \<lparr>updateInterval_opt = None, maxDataPoints_opt = Some 0, initialCount_opt = Some 0\<rparr> 0
        (\<lparr>stream_data = [], isStreaming = True, generatorRef = DataGenerator_new 0,
           intervalRef = True, lastTimestampRef = 0\<rparr>, sconst (1 / 2))))) = 1"
    by (simp add: streamTick_data maxDataPoints_def appendPoint_zero)
  obtain s0 rs0 where u: "useDataStream \<lparr>updateInterval_opt = None, maxDataPoints_opt = Some 2, initialCount_opt = Some 5\<rparr> 0
              (sconst (1 / 2)) = Inr (s0, rs0)"
    and l: "length (stream_data s0) = nat (initialCount \<lparr>updateInterval_opt = None, maxDataPoints_opt = Some 2, initialCount_opt = Some 5\<rparr>)"
    using useDataStream_initial [of "\<lparr>updateInterval_opt = None, maxDataPoints_opt = Some 2, initialCount_opt = Some 5\<rparr>" 0 "sconst (1 / 2)"] by blast
  have b: "(case useDataStream \<lparr>updateInterval_opt = None, maxDataPoints_opt = Some 2, initialCount_opt = Some 5\<rparr> 0
              (sconst (1 / 2)) of
         Inr (s0, rs0) \<Rightarrow> length (stream_data s0) | Inl e \<Rightarrow> 0) = 5"
    using l by (simp add: u initialCount_def)
  show ?thesis
    using a b by simp
qed

text \<open>
  C6, amended. With a positive capacity \<open>n\<close> (the \<open>maxDataPoints\<close> given, or 10000 when
  none is given), whatever the buffer held before: after a run of ticks the buffer is
  the last \<open>n\<close> elements of the old buffer followed by the samples the ticks generated,
  so after more than \<open>n\<close> ticks it holds exactly the \<open>n\<close> newest of those samples, in
  the order they were generated. \<open>addDataPoints\<close> appends its whole batch and trims once,
  to the last \<open>n\<close> elements of the old buffer followed by the batch. After every tick
  and every \<open>addDataPoints\<close> the length is at most \<open>n\<close>. The same holds of the state
  update for arbitrary samples: appending more than \<open>n\<close> of them one by one leaves
  exactly the last \<open>n\<close>, and a batch append equals appending its samples one by one.
  Construction and \<open>resetData\<close> load \<open>initialCount\<close> samples (1000 when none is given)
  and trim nothing.
\<close>

theorem stream_keeps_newest:
  assumes "0 < n"
      and "maxDataPoints_opt options = Some n \<or> maxDataPoints_opt options = None \<and> n = 10000"
  shows "(nows \<noteq> [] \<longrightarrow>
            stream_data (fst (fold (streamTick options) nows (s, rs)))
              = last_n (nat n)
                  (stream_data s @ tick_points nows (lastTimestampRef s) (generatorRef s) rs))
       \<and> (int (length nows) > n \<longrightarrow>
            stream_data (fst (fold (streamTick options) nows (s, rs)))
              = last_n (nat n) (tick_points nows (lastTimestampRef s) (generatorRef s) rs)
          \<and> int (length (stream_data (fst (fold (streamTick options) nows (s, rs))))) = n)
       \<and> length (tick_points nows (lastTimestampRef s) (generatorRef s) rs) = length nows
       \<and> stream_data (fst (addDataPoints options now count (s, rs)))
           = last_n (nat n)
               (stream_data s @ next_points (nat count)
                  (if stream_data s \<noteq> [] then timestamp (last (stream_data s)) else now)
                  (generatorRef s) rs)
       \<and> length (next_points k lastTs g rs) = k
       \<and> int (length (stream_data (fst (streamTick options now (s, rs))))) \<le> n
       \<and> int (length (stream_data (fst (addDataPoints options now count (s, rs))))) \<le> n
       \<and> (int (length samples) > n \<longrightarrow>
            fold (\<lambda>p buf. appendPoint n buf p) samples start = last_n (nat n) samples
          \<and> int (length (fold (\<lambda>p buf. appendPoint n buf p) samples start)) = n)
       \<and> appendBatch n start samples = last_n (nat n) (start @ samples)
       \<and> (samples \<noteq> [] \<longrightarrow>
            fold (\<lambda>p buf. appendPoint n buf p) samples start = appendBatch n start samples)
       \<and> (initialCount_opt options = Some c \<or> initialCount_opt options = None \<and> c = 1000 \<longrightarrow>
            (case useDataStream options now rs of
               Inr (s0, rs0) \<Rightarrow> length (stream_data s0) = nat c
             | Inl e \<Rightarrow> False)
          \<and> length (stream_data (fst (resetData options now (s, rs)))) = nat c)"
proof -
  have m: "maxDataPoints options = n"
    using assms(2) by (auto simp: maxDataPoints_def)
  have pos: "0 < maxDataPoints options"
    using assms(1) m by simp
  have T1: "stream_data (fst (fold (streamTick options) nows (s, rs)))
              = last_n (nat n)
                  (stream_data s @ tick_points nows (lastTimestampRef s) (generatorRef s) rs)"
    if "nows \<noteq> []"
    using fold_streamTick [OF pos, of nows s rs] that by (simp add: m)
  have T3: "length (tick_points nows (lastTimestampRef s) (generatorRef s) rs) = length nows"
    by (rule length_tick_points)
  have T2: "stream_data (fst (fold (streamTick options) nows (s, rs)))
              = last_n (nat n) (tick_points nows (lastTimestampRef s) (generatorRef s) rs)
          \<and> int (length (stream_data (fst (fold (streamTick options) nows (s, rs))))) = n"
    if "int (length nows) > n"
  proof -
    have ne: "nows \<noteq> []" using that assms(1) by auto
    have le: "nat n \<le> length (tick_points nows (lastTimestampRef s) (generatorRef s) rs)"
      using that by (simp add: T3)
    show ?thesis
      using assms(1) le by (simp add: T1 [OF ne] last_n_append length_last_n)
  qed
  have A1: "stream_data (fst (addDataPoints options now count (s, rs)))
           = last_n (nat n)
               (stream_data s @ next_points (nat count)
                  (if stream_data s \<noteq> [] then timestamp (last (stream_data s)) else now)
                  (generatorRef s) rs)"
    using assms(1) by (simp only: addDataPoints_data m appendBatch_last_n)
  have A2: "length (next_points k lastTs g rs) = k"
    by (rule length_next_points)
  have B1: "int (length (stream_data (fst (streamTick options now (s, rs))))) \<le> n"
    using length_appendBatch [OF assms(1)]
    by (simp only: streamTick_data m appendPoint_appendBatch)
  have B2: "int (length (stream_data (fst (addDataPoints options now count (s, rs))))) \<le> n"
    using length_appendBatch [OF assms(1)] by (simp only: addDataPoints_data m)
  have P1: "fold (\<lambda>p buf. appendPoint n buf p) samples start = last_n (nat n) samples
          \<and> int (length (fold (\<lambda>p buf. appendPoint n buf p) samples start)) = n"
    if "int (length samples) > n"
  proof -
    have ne: "samples \<noteq> []" using that assms(1) by auto
    have le: "nat n \<le> length samples" using that by simp
    show ?thesis
      using assms(1) le
      by (simp add: fold_appendPoint [OF assms(1) ne] last_n_append length_last_n)
  qed
  have P2: "appendBatch n start samples = last_n (nat n) (start @ samples)"
    using assms(1) by (rule appendBatch_last_n)
  have P3: "fold (\<lambda>p buf. appendPoint n buf p) samples start = appendBatch n start samples"
    if "samples \<noteq> []"
    using assms(1) that by (simp add: fold_appendPoint appendBatch_last_n)
  have I: "(case useDataStream options now rs of
               Inr (s0, rs0) \<Rightarrow> length (stream_data s0) = nat c
             | Inl e \<Rightarrow> False)
          \<and> length (stream_data (fst (resetData options now (s, rs)))) = nat c"
    if "initialCount_opt options = Some c \<or> initialCount_opt options = None \<and> c = 1000"
  proof -
    have c: "initialCount options = c"
      using that by (auto simp: initialCount_def)
    obtain s0 rs0 where "useDataStream options now rs = Inr (s0, rs0)"
      "length (stream_data s0) = nat (initialCount options)"
      using useDataStream_initial [of options now rs] by blast
    then show ?thesis
      using resetData_length [of options now s rs] c by simp
  qed
  show ?thesis
    using T1 T2 T3 A1 A2 B1 B2 P1 P2 P3 I by blast
qed

theorem stream_keeps_newest_witness:
  "(0::int) < 2
   \<and> maxDataPoints_opt \<lparr>updateInterval_opt = None, maxDataPoints_opt = Some 2, initialCount_opt = Some 5\<rparr> = Some 2
   \<and> [0, 0, 0 :: real] \<noteq> [] \<and> int (length [0, 0, 0 :: real]) > 2
   \<and> int (length (stream_data (fst (fold (streamTick \<lparr>updateInterval_opt = None, maxDataPoints_opt = Some 2, initialCount_opt = Some 5\<rparr>) [0, 0, 0]
         (\<lparr>stream_data = [\<lparr>timestamp = 0, val = 50, category = ''temperature'', metadata = None\<rparr>,
              \<lparr>timestamp = 100, val = 50, category = ''temperature'', metadata = None\<rparr>,
              \<lparr>timestamp = 200, val = 50, category = ''temperature'', metadata = None\<rparr>],
            isStreaming = True, generatorRef = DataGenerator_new 0, intervalRef = True,
            lastTimestampRef = 200\<rparr>,
          sconst (1 / 2)))))) = 2
   \<and> int (length [\<lparr>timestamp = 100, val = 50, category = ''temperature'', metadata = None\<rparr>,
        \<lparr>timestamp = 200, val = 50, category = ''temperature'', metadata = None\<rparr>,
        \<lparr>timestamp = 300, val = 50, category = ''temperature'', metadata = None\<rparr>]) > 2
   \<and> fold (\<lambda>p buf. appendPoint 2 buf p)
        [\<lparr>timestamp = 100, val = 50, category = ''temperature'', metadata = None\<rparr>,
         \<lparr>timestamp = 200, val = 50, category = ''temperature'', metadata = None\<rparr>,
         \<lparr>timestamp = 300, val = 50, category = ''temperature'', metadata = None\<rparr>]
        [\<lparr>timestamp = 0, val = 50, category = ''temperature'', metadata = None\<rparr>]
       = [\<lparr>timestamp = 200, val = 50, category = ''temperature'', metadata = None\<rparr>,
          \<lparr>timestamp = 300, val = 50, category = ''temperature'', metadata = None\<rparr>]
   \<and> appendBatch 2 [\<lparr>timestamp = 0, val = 50, category = ''temperature'', metadata = None\<rparr>]
        [\<lparr>timestamp = 100, val = 50, category = ''temperature'', metadata = None\<rparr>,
         \<lparr>timestamp = 200, val = 50, category = ''temperature'', metadata = None\<rparr>,
         \<lparr>timestamp = 300, val = 50, category = ''temperature'', metadata = None\<rparr>]
       = [\<lparr>timestamp = 200, val = 50, category = ''temperature'', metadata = None\<rparr>,
          \<lparr>timestamp = 300, val = 50, category = ''temperature'', metadata = None\<rparr>]
   \<and> initialCount_opt \<lparr>updateInterval_opt = None, maxDataPoints_opt = Some 2, initialCount_opt = Some 5\<rparr> = Some 5
   \<and> length (stream_data (fst (resetData \<lparr>updateInterval_opt = None, maxDataPoints_opt = Some 2, initialCount_opt = Some 5\<rparr> 0
         (\<lparr>stream_data = [\<lparr>timestamp = 0, val = 50, category = ''temperature'', metadata = None\<rparr>,
              \<lparr>timestamp = 100, val = 50, category = ''temperature'', metadata = None\<rparr>,
              \<lparr>timestamp = 200, val = 50, category = ''temperature'', metadata = None\<rparr>],
            isStreaming = True, generatorRef = DataGenerator_new 0, intervalRef = True,
            lastTimestampRef = 200\<rparr>,
          sconst (1 / 2))))) = 5"
  using stream_keeps_newest
    [of 2 "\<lparr>updateInterval_opt = None, maxDataPoints_opt = Some 2, initialCount_opt = Some 5\<rparr>" "[0, 0, 0]"
        "fst (\<lparr>stream_data = [\<lparr>timestamp = 0, val = 50, category = ''temperature'', metadata = None\<rparr>,
              \<lparr>timestamp = 100, val = 50, category = ''temperature'', metadata = None\<rparr>,
              \<lparr>timestamp = 200, val = 50, category = ''temperature'', metadata = None\<rparr>],
            isStreaming = True, generatorRef = DataGenerator_new 0, intervalRef = True,
            lastTimestampRef = 200\<rparr>,
          sconst (1 / 2))"
        "sconst (1 / 2)" 0 _ _ _ _
        "[\<lparr>timestamp = 100, val = 50, category = ''temperature'', metadata = None\<rparr>,
          \<lparr>timestamp = 200, val = 50, category = ''temperature'', metadata = None\<rparr>,
          \<lparr>timestamp = 300, val = 50, category = ''temperature'', metadata = None\<rparr>]"
        "[\<lparr>timestamp = 0, val = 50, category = ''temperature'', metadata = None\<rparr>]" 5]
  by (simp add: last_n_def)


section \<open>Point reduction while drawing\<close>

lemma strided_unfold:
  assumes "0 < step" "i < length data"
  shows "map (\<lambda>j. data ! (i + j * step)) [0..<(length data - i + step - 1) div step]
       = data ! i # map (\<lambda>j. data ! (i + step + j * step))
                      [0..<(length data - (i + step) + step - 1) div step]"
proof -
  define m where "m = length data - (i + step) + step - 1"
  have cnt: "(length data - i + step - 1) div step = Suc (m div step)"
  proof (cases "i + step \<le> length data")
    case True
    then have "length data - i + step - 1 = m + step"
      using assms unfolding m_def by arith
    then have "(length data - i + step - 1) div step = (m + step) div step"
      by (rule arg_cong)
    also have "\<dots> = Suc (m div step)"
      using assms by simp
    finally show ?thesis .
  next
    case False
    define r where "r = length data - i - 1"
    have r: "r < step" "length data - i + step - 1 = r + step"
      using False assms unfolding r_def by arith+
    have "m = step - 1"
      using False unfolding m_def by simp
    then have "m div step = 0"
      using assms by simp
    moreover have "(r + step) div step = 1"
      using r(1) assms by simp
    moreover have "(length data - i + step - 1) div step = (r + step) div step"
      using r(2) by (rule arg_cong)
    ultimately show ?thesis
      by (simp only:)
  qed
  show ?thesis
    unfolding cnt m_def [symmetric]
    by (simp add: upt_conv_Cons map_Suc_upt [symmetric] ac_simps del: upt_Suc)
qed

lemma strided_done:
  assumes "0 < step" "\<not> i < length data"
  shows "map (\<lambda>j. data ! (i + j * step)) [0..<(length data - i + step - 1) div step] = []"
  using assms by simp

lemma drawLoop_strided:
  assumes "0 < step"
  shows "drawLoop data step i drawn
           = Some (drawn @ map (\<lambda>j. data ! (i + j * step))
                             [0..<(length data - i + step - 1) div step])"
proof (induction "length data - i" arbitrary: i drawn rule: less_induct)
  case less
  show ?case
  proof (cases "i < length data")
    case False
    then show ?thesis
      using strided_done [OF assms False] by (subst drawLoop.simps) simp
  next
    case True
    have lt: "length data - (i + step) < length data - i"
      using True assms by arith
    have "drawLoop data step i drawn = drawLoop data step (i + step) (drawn @ [data ! i])"
      using True by (subst drawLoop.simps) simp
    also have "\<dots> = Some ((drawn @ [data ! i]) @ map (\<lambda>j. data ! (i + step + j * step))
                             [0..<(length data - (i + step) + step - 1) div step])"
      by (rule less.hyps [OF lt])
    finally show ?thesis
      unfolding strided_unfold [OF assms True] by simp
  qed
qed

lemma strided_subseq:
  assumes "0 < step"
  shows "subseq (map (\<lambda>j. data ! (i + j * step)) [0..<(length data - i + step - 1) div step])
           (drop i data)"
proof (induction "length data - i" arbitrary: i rule: less_induct)
  case less
  show ?case
  proof (cases "i < length data")
    case False
    then show ?thesis
      using strided_done [OF assms False] by simp
  next
    case True
    have lt: "length data - (i + step) < length data - i"
      using True assms by arith
    have "subseq (map (\<lambda>j. data ! (i + step + j * step))
                    [0..<(length data - (i + step) + step - 1) div step])
            (drop (i + step) data)"
      by (rule less.hyps [OF lt])
    moreover have "drop (i + step) data = drop (step - 1) (drop (Suc i) data)"
      using assms by (simp add: add.commute)
    moreover have "subseq (drop (step - 1) (drop (Suc i) data)) (drop (Suc i) data)"
      by (rule suffix_imp_subseq) (rule suffix_drop)
    ultimately have "subseq (map (\<lambda>j. data ! (i + step + j * step))
                    [0..<(length data - (i + step) + step - 1) div step])
            (drop (Suc i) data)"
      by (metis subseq_order.trans)
    then have "subseq (data ! i # map (\<lambda>j. data ! (i + step + j * step))
                    [0..<(length data - (i + step) + step - 1) div step])
            (data ! i # drop (Suc i) data)"
      by simp
    then show ?thesis
      unfolding strided_unfold [OF assms True] Cons_nth_drop_Suc [OF True] .
  qed
qed

lemma every_nth_subseq: "0 < s \<Longrightarrow> subseq (every_nth s xs) xs"
  using strided_subseq [of s xs 0] by (simp add: every_nth_def)

lemma length_every_nth: "length (every_nth s xs) = (length xs + s - 1) div s"
  by (simp add: every_nth_def)

lemma every_nth_1: "every_nth (Suc 0) xs = xs"
  by (simp add: every_nth_def map_nth)

lemma render_every_nth: "render data = Some (every_nth (renderStep data) data)"
proof (cases "data = []")
  case True
  then show ?thesis by (simp add: render_def every_nth_def renderStep_def useLowDetail_def)
next
  case False
  have "0 < renderStep data" by (simp add: renderStep_def less_max_iff_disj)
  then show ?thesis
    using False by (simp add: render_def drawLoop_strided every_nth_def)
qed

lemma ScatterPlot_every_nth: "ScatterPlot data = Some (every_nth (scatterStep data) data)"
proof (cases "data = []")
  case True
  then show ?thesis by (simp add: ScatterPlot_def every_nth_def scatterStep_def)
next
  case False
  have "0 < scatterStep data" by (simp add: scatterStep_def max_def)
  then show ?thesis
    using False by (simp add: ScatterPlot_def drawLoop_strided every_nth_def)
qed

lemma scatterStep_spec: "scatterStep data = spec_stride 10000 data"
  by (auto simp: scatterStep_def spec_stride_def max_def)

lemma renderStep_spec:
  "renderStep data = (if length data > 50000 then spec_stride 2000 data else 1)"
  by (simp add: renderStep_def spec_stride_def useLowDetail_def)

lemma every_nth_index:
  assumes "0 < s" "j < length (every_nth s xs)"
  shows "j * s < length xs \<and> every_nth s xs ! j = xs ! (j * s)"
proof -
  have j: "j < (length xs + s - 1) div s"
    using assms(2) by (simp add: every_nth_def)
  have "j * s < length xs"
  proof (rule ccontr)
    assume "\<not> j * s < length xs"
    then have "length xs + s - 1 < Suc j * s"
      using assms(1) by simp
    then have "(length xs + s - 1) div s < Suc j"
      by (rule less_mult_imp_div_less)
    then show False
      using j by simp
  qed
  then show ?thesis
    using j by (simp add: every_nth_def)
qed

lemma ceil_div:
  assumes "0 < s"
  shows "int ((n + s - 1) div s) = \<lceil>real n / real s\<rceil>"
proof -
  define c where "c = (n + s - 1) div s"
  have "c * s \<le> n + s - 1"
    unfolding c_def by simp
  then have up: "c * s < n + s"
    using assms by arith
  have "n + s - 1 < s + c * s"
    unfolding c_def using assms by (rule dividend_less_div_times)
  then have lo: "n \<le> c * s"
    using assms by arith
  have "real c * real s < real n + real s"
    using up by (metis of_nat_add of_nat_less_iff of_nat_mult)
  then have "(real c - 1) * real s < real n"
    by (simp add: algebra_simps)
  then have "real c - 1 < real n / real s"
    using assms by (simp add: pos_less_divide_eq)
  then have A: "real_of_int (int c) - 1 < real n / real s"
    by simp
  have "real n \<le> real c * real s"
    using lo by (metis of_nat_le_iff of_nat_mult)
  then have B: "real n / real s \<le> real_of_int (int c)"
    using assms by (simp add: pos_divide_le_eq)
  have "\<lceil>real n / real s\<rceil> = int c"
    using A B by (rule ceiling_unique)
  then show ?thesis
    unfolding c_def by simp
qed


lemma every_nth_nonempty: "0 < s \<Longrightarrow> xs \<noteq> [] \<Longrightarrow> every_nth s xs \<noteq> []"
proof -
  assume s: "0 < s" and "xs \<noteq> []"
  then have "s \<le> length xs + s - 1"
    by (cases xs) simp_all
  then have "1 \<le> (length xs + s - 1) div s"
    using s by (simp add: Suc_le_eq div_greater_zero_iff)
  then show ?thesis
    by (auto simp: every_nth_def)
qed

lemma every_nth_set: "0 < s \<Longrightarrow> set (every_nth s xs) \<subseteq> set xs"
  using every_nth_index [of s _ xs] by (fastforce simp: in_set_conv_nth)


text \<open>
  C7, as stated, fails for the line renderer: for 4000 samples the stride of the
  specification with density 2000 is 2 and keeps 2000 points, but \<open>render\<close> draws all
  4000, since it reduces nothing up to 50000 points.
\<close>

theorem render_draws_all_4000:
  "render (replicate 4000 \<lparr>timestamp = 0, val = 50, category = ''temperature'', metadata = None\<rparr>)
     = Some (replicate 4000 \<lparr>timestamp = 0, val = 50, category = ''temperature'', metadata = None\<rparr>)
   \<and> length (replicate 4000 \<lparr>timestamp = 0, val = 50, category = ''temperature'', metadata = None\<rparr>) = 4000
   \<and> spec_stride 2000 (replicate 4000 \<lparr>timestamp = 0, val = 50, category = ''temperature'', metadata = None\<rparr>) = 2
   \<and> length (spec_decimate (replicate 4000 \<lparr>timestamp = 0, val = 50, category = ''temperature'', metadata = None\<rparr>) 2000) = 2000
   \<and> render (replicate 4000 \<lparr>timestamp = 0, val = 50, category = ''temperature'', metadata = None\<rparr>)
     \<noteq> Some (spec_decimate (replicate 4000 \<lparr>timestamp = 0, val = 50, category = ''temperature'', metadata = None\<rparr>) 2000)"
proof -
  define S where "S = replicate 4000
    \<lparr>timestamp = 0, val = 50, category = ''temperature'', metadata = None\<rparr>"
  have len: "length S = 4000"
    by (simp add: S_def)
  have r: "render S = Some S"
    by (simp add: render_every_nth renderStep_def useLowDetail_def every_nth_1 len)
  have st: "spec_stride 2000 S = 2"
    by (simp add: spec_stride_def len)
  have "length (spec_decimate S 2000) = (4000 + 2 - 1) div 2"
    by (simp only: spec_decimate_def st length_every_nth len)
  then have l2: "length (spec_decimate S 2000) = 2000"
    by simp
  then have "S \<noteq> spec_decimate S 2000"
    using len by auto
  then have "render S \<noteq> Some (spec_decimate S 2000)"
    using r by simp
  then show ?thesis
    using len r st l2 unfolding S_def by blast
qed

text \<open>
  C7, amended. The line renderer draws with stride 1 up to 50000 points and with stride
  \<open>max(1, floor(length / 2000))\<close> above; the scatter plot draws with stride
  \<open>max(1, floor(length / 10000))\<close>. Both loops end, and with stride \<open>s\<close> they draw exactly
  the elements at the indices \<open>0, s, 2s, ...\<close> of the input: \<open>ceil(length / s)\<close> points,
  a subsequence of the input in its order, with no point that is not in the input and
  at least one point when the input is not empty.
\<close>

theorem render_ScatterPlot_stride:
  "render data
     = Some (every_nth (if 50000 < length data then max 1 (length data div 2000) else 1) data)
   \<and> ScatterPlot data = Some (every_nth (max 1 (length data div 10000)) data)
   \<and> (0 < s \<longrightarrow>
        (\<forall>j < length (every_nth s data).
            j * s < length data \<and> every_nth s data ! j = data ! (j * s))
        \<and> int (length (every_nth s data)) = \<lceil>real (length data) / real s\<rceil>
        \<and> subseq (every_nth s data) data
        \<and> set (every_nth s data) \<subseteq> set data
        \<and> (data \<noteq> [] \<longrightarrow> every_nth s data \<noteq> []))"
proof -
  have R: "render data
     = Some (every_nth (if 50000 < length data then max 1 (length data div 2000) else 1) data)"
    by (simp add: render_every_nth renderStep_def useLowDetail_def)
  have S: "ScatterPlot data = Some (every_nth (max 1 (length data div 10000)) data)"
    by (simp add: ScatterPlot_every_nth scatterStep_spec spec_stride_def)
  have P: "(\<forall>j < length (every_nth s data).
            j * s < length data \<and> every_nth s data ! j = data ! (j * s))
        \<and> int (length (every_nth s data)) = \<lceil>real (length data) / real s\<rceil>
        \<and> subseq (every_nth s data) data
        \<and> set (every_nth s data) \<subseteq> set data
        \<and> (data \<noteq> [] \<longrightarrow> every_nth s data \<noteq> [])" if "0 < s"
  proof -
    have "int (length (every_nth s data)) = \<lceil>real (length data) / real s\<rceil>"
      using ceil_div [OF that, of "length data"] by (simp add: length_every_nth)
    then show ?thesis
      using every_nth_index [OF that, of _ data] every_nth_subseq [OF that, of data]
        every_nth_set [OF that, of data] every_nth_nonempty [OF that, of data]
      by blast
  qed
  show ?thesis
    using R S P by blast
qed

theorem render_ScatterPlot_stride_witness:
  "0 < (2::nat) \<and> [10, 20, 30, 40, 50 :: nat] \<noteq> []
   \<and> every_nth 2 [10, 20, 30, 40, 50 :: nat] = [10, 30, 50]
   \<and> render [10, 20, 30, 40, 50 :: nat] = Some [10, 20, 30, 40, 50]
   \<and> ScatterPlot [10, 20, 30, 40, 50 :: nat] = Some [10, 20, 30, 40, 50]"
  using render_ScatterPlot_stride [of "[10, 20, 30, 40, 50 :: nat]" 2]
  by (simp add: every_nth_def upt_rec nth_Cons')

section \<open>Sample source\<close>

lemma round_clamped:
  assumes "0 \<le> v" "v \<le> 100"
  shows "0 \<le> Math_round (v * 100) / 100 \<and> Math_round (v * 100) / 100 \<le> 100
       \<and> two_decimals (Math_round (v * 100) / 100)"
proof -
  have "0 \<le> \<lfloor>v * 100 + 1 / 2\<rfloor>"
    using assms(1) by simp
  moreover have "\<lfloor>v * 100 + 1 / 2\<rfloor> \<le> 10000"
  proof -
    have "v * 100 + 1 / 2 < 10001" using assms(2) by simp
    then have "\<lfloor>v * 100 + 1 / 2\<rfloor> < 10001" by (simp add: floor_less_iff)
    then show ?thesis by simp
  qed
  ultimately show ?thesis
    by (simp add: Math_round_def two_decimals_def)
qed

lemma generatePoint_default:
  assumes "valueRange g = \<lparr>range_min = 0, range_max = 100\<rparr>"
  shows "default_sample (fst (generatePoint g rs c off))
       \<and> valueRange (fst (snd (generatePoint g rs c off))) = valueRange g"
proof -
  have "default_sample \<lparr>timestamp = t, val = Math_round (max 0 (min 100 x) * 100) / 100,
           category = cn, metadata = md\<rparr>" for t x cn md
    using round_clamped [of "max 0 (min 100 x)"] by (simp add: default_sample_def)
  then show ?thesis
    using assms by (simp add: generatePoint_def Let_def split: prod.splits)
qed

lemma generateBatch_fold_default:
  assumes "valueRange g = \<lparr>range_min = 0, range_max = 100\<rparr>" "\<forall>p\<in>set points. default_sample p"
  shows "(\<forall>p\<in>set (fst (fold (generateBatch_step start) ks (points, g, rs))). default_sample p)
       \<and> valueRange (fst (snd (fold (generateBatch_step start) ks (points, g, rs))))
           = \<lparr>range_min = 0, range_max = 100\<rparr>
       \<and> length (fst (fold (generateBatch_step start) ks (points, g, rs))) = length points + length ks"
  using assms
proof (induction ks arbitrary: points g rs)
  case Nil
  then show ?case by simp
next
  case (Cons i ks)
  obtain p g' rs' where gp: "generatePoint g rs None (Some (start + real i * 100)) = (p, g', rs')"
    by (cases "generatePoint g rs None (Some (start + real i * 100))") auto
  have "default_sample (fst (p, g', rs')) \<and> valueRange (fst (snd (p, g', rs'))) = valueRange g"
    using generatePoint_default [OF Cons.prems(1), of rs None "Some (start + real i * 100)"]
    unfolding gp .
  then have p: "default_sample p" and g': "valueRange g' = \<lparr>range_min = 0, range_max = 100\<rparr>"
    using Cons.prems(1) by simp_all
  have step: "generateBatch_step start i (points, g, rs) = (points @ [p], g', rs')"
    by (simp add: generateBatch_step_def gp)
  have q: "\<forall>q\<in>set (points @ [p]). default_sample q"
    using Cons.prems(2) p by simp
  have "fold (generateBatch_step start) (i # ks) (points, g, rs)
          = fold (generateBatch_step start) ks (points @ [p], g', rs')"
    by (simp add: step)
  then show ?case
    using Cons.IH [OF g' q, of rs'] by simp
qed

lemma generateBatch_default:
  assumes "valueRange g = \<lparr>range_min = 0, range_max = 100\<rparr>"
  shows "(\<forall>p\<in>set (fst (generateBatch g rs count start)). default_sample p)
       \<and> valueRange (fst (snd (generateBatch g rs count start)))
           = \<lparr>range_min = 0, range_max = 100\<rparr>
       \<and> length (fst (generateBatch g rs count start)) = nat count"
  using generateBatch_fold_default [OF assms, of "[]" _ "[0..<nat count]" rs]
  by (simp add: generateBatch_def Let_def)


lemma val_generatePoint_None:
  "val (fst (generatePoint g rs None off))
     = Math_round (max (range_min (valueRange g)) (min (range_max (valueRange g))
         (50 + max (- 2) (min 2 (trend g + (shd (stl rs) - 1 / 2) * (1 / 10))) * 10
            + (shd (stl (stl rs)) - 1 / 2) * 10
            + sin (((case off of None \<Rightarrow> 0 | Some v \<Rightarrow> v) / 1000) * (1 / 100)) * 5))
         * 100) / 100"
  by (simp add: generatePoint_def Let_def)

text \<open>
  C10. While the generator has its default value range, whatever \<open>Math.random()\<close>
  returns and whatever the offset, the value of the sample made by \<open>generatePoint\<close>
  lies in \<open>[0, 100]\<close> and has at most two decimal places; so has every sample of
  \<open>generateBatch\<close> and the sample of \<open>generateNext\<close>; and the generator keeps its default
  value range.
\<close>

theorem generatePoint_default_range:
  assumes "valueRange g = \<lparr>range_min = 0, range_max = 100\<rparr>"
  shows "default_sample (fst (generatePoint g rs c off))
       \<and> (\<forall>p\<in>set (fst (generateBatch g rs count start)). default_sample p)
       \<and> default_sample (fst (generateNext g rs lastTimestamp))
       \<and> valueRange (fst (snd (generatePoint g rs c off))) = \<lparr>range_min = 0, range_max = 100\<rparr>"
  using generatePoint_default [OF assms] generateBatch_default [OF assms] assms
  by (simp add: generateNext_def)

theorem generatePoint_default_range_witness:
  "valueRange (DataGenerator_new 0) = \<lparr>range_min = 0, range_max = 100\<rparr>
   \<and> val (fst (generatePoint (DataGenerator_new 0) (sconst 100) None None)) = 100
   \<and> default_sample (fst (generatePoint (DataGenerator_new 0) (sconst 100) None None))
   \<and> length (fst (generateBatch (DataGenerator_new 0) (sconst 100) 2 None)) = 2
   \<and> default_sample (fst (generateBatch (DataGenerator_new 0) (sconst 100) 2 None) ! 1)"
proof -
  have d: "valueRange (DataGenerator_new 0) = \<lparr>range_min = 0, range_max = 100\<rparr>"
    by (simp add: DataGenerator_new_def)
  have len: "length (fst (generateBatch (DataGenerator_new 0) (sconst 100) 2 None)) = 2"
    using generateBatch_default [OF d, of "sconst 100" 2 None] by simp
  then have m: "fst (generateBatch (DataGenerator_new 0) (sconst 100) 2 None) ! 1
      \<in> set (fst (generateBatch (DataGenerator_new 0) (sconst 100) 2 None))"
    by simp
  have v: "val (fst (generatePoint (DataGenerator_new 0) (sconst 100) None None)) = 100"
    by (simp add: val_generatePoint_None DataGenerator_new_def Math_round_def)
  show ?thesis
    using generatePoint_default_range [OF d, of "sconst 100" None None 2 None] d len m v
    by blast
qed

section \<open>Construction of the stream\<close>




end
